theory Spec2Isabelle
  imports Main "HOL-Library.Word" "HOL-Library.Sublist"
begin

unbundle bit_operations_syntax

section \<open>The file system the script runs against\<close>

text \<open>
  The script \<^verbatim>\<open>script.py\<close> has one routine, \<^verbatim>\<open>create_project_structure\<close>, whose whole
  effect is on the file system below the working directory and on standard output.
  The state it runs in is made explicit:
  \<^item> a path is the list of its components, relative to the working directory;
    \<open>[]\<close> is the working directory itself;
  \<^item> a node is a directory or a regular file, each with its permission bits
    (\<^verbatim>\<open>st_mode & 0o7777\<close>); a regular file has its contents;
  \<^item> the process has a umask, and it writes to standard output.
  The model has directories and regular files only (no symbolic links, no absolute
  paths), one unprivileged user who owns every node (so the owner bits decide every
  access check, and \<^verbatim>\<open>chmod\<close> and \<^verbatim>\<open>utime\<close> are allowed on every node that can be
  reached), and a device that never fills up. Timestamps are not part of the state.
\<close>

type_synonym path = "string list"

type_synonym mode = "32 word"

datatype node = Dir (perm: mode) | File (data: string) (perm: mode)

text \<open>The subclasses of Python's \<^verbatim>\<open>OSError\<close> (alias \<^verbatim>\<open>IOError\<close>) the calls below can raise.\<close>

datatype oserror =
    FileNotFoundError
  | NotADirectoryError
  | PermissionError
  | FileExistsError
  | IsADirectoryError

text \<open>
  The calls the script itself makes, in the order it makes them: a ghost log, written
  when a call is entered, so that the order of the calls can be stated.
\<close>

datatype event =
    CallMkdir string
  | CallTouch string
  | CallChmod string mode
  | CallPrint string

record world =
  fs :: "path \<rightharpoonup> node"
  umask :: mode
  stdout :: string
  calls :: "event list"

text \<open>
  A statement either completes or raises; a raised exception keeps the world as it
  was when it was raised (nothing is rolled back).
\<close>

datatype outcome = Done world | Raised oserror world

definition owner_w :: "mode \<Rightarrow> bool" where
  "owner_w m = bit m 7"

definition owner_x :: "mode \<Rightarrow> bool" where
  "owner_x m = bit m 6"

definition set_perm :: "node \<Rightarrow> mode \<Rightarrow> node" where
  "set_perm n m = (case n of Dir _ \<Rightarrow> Dir m | File c _ \<Rightarrow> File c m)"

subsection \<open>Path resolution\<close>

text \<open>
  \<open>stat_from fs pre cs\<close> walks the components \<open>cs\<close> from the directory \<open>pre\<close>: every
  directory on the way must exist, be a directory and grant search permission.
\<close>

fun stat_from :: "(path \<rightharpoonup> node) \<Rightarrow> path \<Rightarrow> path \<Rightarrow> oserror + node" where
  "stat_from t pre [] =
     (case t pre of None \<Rightarrow> Inl FileNotFoundError | Some n \<Rightarrow> Inr n)"
| "stat_from t pre (c # cs) =
     (case t pre of
        None \<Rightarrow> Inl FileNotFoundError
      | Some (File _ _) \<Rightarrow> Inl NotADirectoryError
      | Some (Dir m) \<Rightarrow>
          if owner_x m then stat_from t (pre @ [c]) cs else Inl PermissionError)"

definition os_stat :: "path \<Rightarrow> world \<Rightarrow> oserror + node" where
  "os_stat p w = stat_from (fs w) [] p"

text \<open>
  \<^verbatim>\<open>Path.is_dir()\<close>: whether the path resolves to a directory; an error is \<open>False\<close>.
  (Before Python 3.13 a permission error is raised instead; \<^verbatim>\<open>Path.mkdir\<close> calls
  \<^verbatim>\<open>is_dir\<close> only after \<^verbatim>\<open>os.mkdir\<close> failed on the same path, which then failed with
  that same \<^verbatim>\<open>PermissionError\<close>, so the call raises the same error either way.)
\<close>

definition is_dir :: "path \<Rightarrow> world \<Rightarrow> bool" where
  "is_dir p w = (case os_stat p w of Inr (Dir _) \<Rightarrow> True | _ \<Rightarrow> False)"

subsection \<open>System calls\<close>

text \<open>
  \<^verbatim>\<open>os.mkdir(path, mode)\<close>: the parent must resolve to a searchable directory; an existing
  entry is \<^verbatim>\<open>EEXIST\<close>; creating needs write permission on the parent; the new directory
  gets \<^verbatim>\<open>mode & ~umask\<close>.
\<close>

definition os_mkdir :: "path \<Rightarrow> mode \<Rightarrow> world \<Rightarrow> outcome" where
  "os_mkdir p md w =
     (if p = [] then
        (case os_stat [] w of Inl e \<Rightarrow> Raised e w | Inr _ \<Rightarrow> Raised FileExistsError w)
      else
        (case os_stat (butlast p) w of
           Inl e \<Rightarrow> Raised e w
         | Inr (File _ _) \<Rightarrow> Raised NotADirectoryError w
         | Inr (Dir m) \<Rightarrow>
             if \<not> owner_x m then Raised PermissionError w
             else if fs w p \<noteq> None then Raised FileExistsError w
             else if \<not> owner_w m then Raised PermissionError w
             else Done (w\<lparr>fs := (fs w)(p \<mapsto> Dir (md AND NOT (umask w)))\<rparr>)))"

text \<open>\<^verbatim>\<open>os.utime(path, None)\<close>: allowed to the owner of any node that resolves.\<close>

definition os_utime :: "path \<Rightarrow> world \<Rightarrow> outcome" where
  "os_utime p w = (case os_stat p w of Inl e \<Rightarrow> Raised e w | Inr _ \<Rightarrow> Done w)"

text \<open>
  \<^verbatim>\<open>fd = os.open(path, O_CREAT | O_WRONLY, mode); os.close(fd)\<close>: no \<^verbatim>\<open>O_TRUNC\<close>, so an
  existing file keeps its contents; a missing one is created empty with
  \<^verbatim>\<open>mode & ~umask\<close>.
\<close>

definition os_open_creat :: "path \<Rightarrow> mode \<Rightarrow> world \<Rightarrow> outcome" where
  "os_open_creat p md w =
     (if p = [] then
        (case os_stat [] w of Inl e \<Rightarrow> Raised e w | Inr _ \<Rightarrow> Raised IsADirectoryError w)
      else
        (case os_stat (butlast p) w of
           Inl e \<Rightarrow> Raised e w
         | Inr (File _ _) \<Rightarrow> Raised NotADirectoryError w
         | Inr (Dir m) \<Rightarrow>
             if \<not> owner_x m then Raised PermissionError w
             else
               (case fs w p of
                  Some (Dir _) \<Rightarrow> Raised IsADirectoryError w
                | Some (File _ fm) \<Rightarrow> if owner_w fm then Done w else Raised PermissionError w
                | None \<Rightarrow>
                    if \<not> owner_w m then Raised PermissionError w
                    else Done (w\<lparr>fs := (fs w)(p \<mapsto> File [] (md AND NOT (umask w)))\<rparr>))))"

text \<open>\<^verbatim>\<open>os.chmod(path, mode)\<close>: the node's permission bits become \<open>mode\<close>; no umask.\<close>

definition sys_chmod :: "path \<Rightarrow> mode \<Rightarrow> world \<Rightarrow> outcome" where
  "sys_chmod p md w =
     (case os_stat p w of
        Inl e \<Rightarrow> Raised e w
      | Inr n \<Rightarrow> Done (w\<lparr>fs := (fs w)(p \<mapsto> set_perm n (md AND 0xFFF))\<rparr>))"

subsection \<open>The library calls of the script\<close>

text \<open>
  \<^verbatim>\<open>Path(s)\<close> splits at \<^verbatim>\<open>/\<close> and drops empty and \<^verbatim>\<open>.\<close> components; the operating system
  resolves a string path the same way.
\<close>

fun split_on :: "char \<Rightarrow> string \<Rightarrow> string list" where
  "split_on c [] = [[]]"
| "split_on c (x # xs) =
     (if x = c then [] # split_on c xs
      else (case split_on c xs of [] \<Rightarrow> [[x]] | y # ys \<Rightarrow> (x # y) # ys))"

definition Path :: "string \<Rightarrow> path" where
  "Path s = filter (\<lambda>c. c \<noteq> [] \<and> c \<noteq> ''.'') (split_on (CHR ''/'') s)"

text \<open>
  \<^verbatim>\<open>Path.mkdir(mode=0o777, parents=False, exist_ok=True)\<close>, the second attempt of the
  call below:
  \<^verbatim>\<open>
    try:
        os.mkdir(self, mode)
    except FileNotFoundError:
        if not parents or self.parent == self:
            raise
        ...
    except OSError:
        if not exist_ok or not self.is_dir():
            raise
  \<close>
\<close>

definition mkdir_no_parents :: "path \<Rightarrow> world \<Rightarrow> outcome" where
  "mkdir_no_parents p w =
     (case os_mkdir p 0x1FF w of
        Done w' \<Rightarrow> Done w'
      | Raised e w' \<Rightarrow>
          if e = FileNotFoundError then Raised e w'
          else if is_dir p w' then Done w' else Raised e w')"

text \<open>
  \<^verbatim>\<open>Path.mkdir(parents=True, exist_ok=True)\<close>:
  \<^verbatim>\<open>
    try:
        os.mkdir(self, mode)
    except FileNotFoundError:
        if not parents or self.parent == self:
            raise
        self.parent.mkdir(parents=True, exist_ok=True)
        self.mkdir(mode, parents=False, exist_ok=exist_ok)
    except OSError:
        if not exist_ok or not self.is_dir():
            raise
  \<close>
  The parent of a path is the path without its last component; the working directory
  is its own parent.
\<close>

function mkdir_parents :: "path \<Rightarrow> world \<Rightarrow> outcome" where
  "mkdir_parents p w =
     (case os_mkdir p 0x1FF w of
        Done w' \<Rightarrow> Done w'
      | Raised e w' \<Rightarrow>
          if e = FileNotFoundError then
            (if p = [] then Raised e w'
             else (case mkdir_parents (butlast p) w' of
                     Raised e' w'' \<Rightarrow> Raised e' w''
                   | Done w'' \<Rightarrow> mkdir_no_parents p w''))
          else if is_dir p w' then Done w' else Raised e w')"
  by pat_completeness auto
termination
  by (relation "measure (\<lambda>(p, w). length p)") auto

text \<open>
  \<^verbatim>\<open>Path.touch(mode=0o666, exist_ok=True)\<close>:
  \<^verbatim>\<open>
    try:
        os.utime(self, None)
    except OSError:
        pass
    else:
        return
    fd = os.open(self, os.O_CREAT | os.O_WRONLY, mode)
    os.close(fd)
  \<close>
\<close>

definition touch :: "path \<Rightarrow> world \<Rightarrow> outcome" where
  "touch p w =
     (case os_utime p w of
        Done w' \<Rightarrow> Done w'
      | Raised e w' \<Rightarrow> os_open_creat p 0x1B6 w')"

definition log_call :: "event \<Rightarrow> world \<Rightarrow> world" where
  "log_call ev w = w\<lparr>calls := calls w @ [ev]\<rparr>"

definition Path_mkdir :: "string \<Rightarrow> world \<Rightarrow> outcome" where
  "Path_mkdir s w = mkdir_parents (Path s) (log_call (CallMkdir s) w)"

definition Path_touch :: "string \<Rightarrow> world \<Rightarrow> outcome" where
  "Path_touch s w = touch (Path s) (log_call (CallTouch s) w)"

definition os_chmod :: "string \<Rightarrow> mode \<Rightarrow> world \<Rightarrow> outcome" where
  "os_chmod s md w = sys_chmod (Path s) md (log_call (CallChmod s md) w)"

text \<open>\<^verbatim>\<open>print(s)\<close> writes \<open>s\<close> and a newline to standard output.\<close>

definition newline :: char where
  "newline = CHR 0x0A"

definition print :: "string \<Rightarrow> world \<Rightarrow> outcome" where
  "print s w = Done ((log_call (CallPrint s) w)\<lparr>stdout := stdout w @ s @ [newline]\<rparr>)"

text \<open>\<^verbatim>\<open>str(n)\<close> of a natural number, as an f-string formats \<^verbatim>\<open>len(...)\<close>.\<close>

definition digit :: "nat \<Rightarrow> char" where
  "digit d = ''0123456789'' ! d"

fun str :: "nat \<Rightarrow> string" where
  "str n = (if n < 10 then [digit n] else str (n div 10) @ [digit (n mod 10)])"

subsection \<open>Sequencing\<close>

text \<open>One statement after another: an exception skips everything that follows.\<close>

definition and_then :: "outcome \<Rightarrow> (world \<Rightarrow> outcome) \<Rightarrow> outcome" where
  "and_then r k = (case r of Done w \<Rightarrow> k w | Raised e w \<Rightarrow> Raised e w)"

text \<open>\<^verbatim>\<open>for x in xs: body\<close>\<close>

fun for_each :: "('a \<Rightarrow> world \<Rightarrow> outcome) \<Rightarrow> 'a list \<Rightarrow> world \<Rightarrow> outcome" where
  "for_each body [] w = Done w"
| "for_each body (x # xs) w = and_then (body x w) (for_each body xs)"

section \<open>The script\<close>

definition directories :: "string list" where
  "directories = [''api'', ''worker'', ''k8s'', ''scripts'', ''.github/workflows'']"

definition files_to_create :: "string list" where
  "files_to_create =
     [''api/Dockerfile'',
      ''worker/Dockerfile'',
      ''k8s/01-namespace-config.yaml'',
      ''k8s/02-mongodb.yaml'',
      ''k8s/03-api-service.yaml'',
      ''k8s/04-keda-scaledjob.yaml'',
      ''k8s/05-prometheus.yaml'',
      ''k8s/06-grafana.yaml'',
      ''.github/workflows/ci-cd.yml'',
      ''scripts/deploy.sh'',
      ''env.example'',
      ''docker-compose.dev.yml'',
      ''Makefile'']"

text \<open>The body of the second loop: touch the file, then report it.\<close>

definition created_line :: "string \<Rightarrow> string" where
  "created_line file_path = ''Created: '' @ file_path"

definition touch_and_report :: "string \<Rightarrow> world \<Rightarrow> outcome" where
  "touch_and_report file_path w =
     and_then (Path_touch file_path w) (print (created_line file_path))"

definition summary_line :: string where
  "summary_line =
     ''Created '' @ str (length files_to_create) @ '' files and '' @
     str (length directories) @ '' directories''"

definition usage_hint :: string where
  "usage_hint = ''You can now copy the specific code content into each file.''"

definition create_project_structure :: "world \<Rightarrow> outcome" where
  "create_project_structure w =
     and_then (for_each Path_mkdir directories w) (\<lambda>w.
     and_then (for_each touch_and_report files_to_create w) (\<lambda>w.
     and_then (os_chmod ''scripts/deploy.sh'' 0x1ED w) (\<lambda>w.
     and_then (print (newline # summary_line) w) (print usage_hint))))"

text \<open>
  \<^verbatim>\<open>if __name__ == "__main__": create_project_structure()\<close>: the interpreter exits with
  status 0 when the call returns and with status 1 on an exception nobody caught.
\<close>

definition exit_status :: "outcome \<Rightarrow> nat" where
  "exit_status r = (case r of Done _ \<Rightarrow> 0 | Raised _ _ \<Rightarrow> 1)"

definition main :: "world \<Rightarrow> nat \<times> world" where
  "main w =
     (case create_project_structure w of
        Done w' \<Rightarrow> (0, w')
      | Raised e w' \<Rightarrow> (1, w'))"

section \<open>Vocabulary of the properties\<close>

definition world_of :: "outcome \<Rightarrow> world" where
  "world_of r = (case r of Done w \<Rightarrow> w | Raised _ w \<Rightarrow> w)"

text \<open>What a run from \<open>w\<close> to \<open>w'\<close> wrote to standard output.\<close>

definition printed :: "world \<Rightarrow> world \<Rightarrow> string" where
  "printed w w' = drop (length (stdout w)) (stdout w')"

text \<open>The lines of a text: each newline ends a line.\<close>

fun lines_of :: "string \<Rightarrow> string list" where
  "lines_of [] = []"
| "lines_of (c # cs) =
     (if c = newline then [] # lines_of cs
      else (case lines_of cs of [] \<Rightarrow> [[c]] | l # ls \<Rightarrow> (c # l) # ls))"

text \<open>The text a complete run writes, and the calls it makes, read off the script.\<close>

definition script_output :: string where
  "script_output =
     concat (map (\<lambda>f. created_line f @ [newline]) files_to_create) @
     [newline] @ summary_line @ [newline] @ usage_hint @ [newline]"

definition script_calls :: "event list" where
  "script_calls =
     map CallMkdir directories @
     concat (map (\<lambda>f. [CallTouch f, CallPrint (created_line f)]) files_to_create) @
     [CallChmod ''scripts/deploy.sh'' 0x1ED,
      CallPrint (newline # summary_line),
      CallPrint usage_hint]"

text \<open>
  A node survives as \<open>n'\<close>: a directory stays a directory that can still be searched if
  it could be, a regular file keeps its contents. Only permission bits may differ.
\<close>

definition node_le :: "node \<Rightarrow> node \<Rightarrow> bool" where
  "node_le n n' =
     (case n of
        Dir m \<Rightarrow> (case n' of Dir m' \<Rightarrow> owner_x m \<longrightarrow> owner_x m' | File _ _ \<Rightarrow> False)
      | File c _ \<Rightarrow> (case n' of Dir _ \<Rightarrow> False | File c' _ \<Rightarrow> c' = c))"

definition fs_le :: "(path \<rightharpoonup> node) \<Rightarrow> (path \<rightharpoonup> node) \<Rightarrow> bool" where
  "fs_le t t' = (\<forall>q n. t q = Some n \<longrightarrow> (\<exists>n'. t' q = Some n' \<and> node_le n n'))"

text \<open>
  The file system only grows, and only inside \<open>S\<close>: every entry of \<open>t\<close> is in \<open>t'\<close>
  unchanged, and outside \<open>S\<close> the two agree.
\<close>

definition grows_within :: "path set \<Rightarrow> (path \<rightharpoonup> node) \<Rightarrow> (path \<rightharpoonup> node) \<Rightarrow> bool" where
  "grows_within S t t' = (t \<subseteq>\<^sub>m t' \<and> (\<forall>q. q \<notin> S \<longrightarrow> t' q = t q))"

text \<open>
  A statement run from \<open>w\<close> logs the calls \<open>evs\<close> when it completes, and an initial
  part of them when it raises.
\<close>

definition emits :: "outcome \<Rightarrow> world \<Rightarrow> event list \<Rightarrow> bool" where
  "emits r w evs =
     (case r of
        Done w' \<Rightarrow> calls w' = calls w @ evs
      | Raised _ w' \<Rightarrow> (\<exists>es. calls w' = calls w @ es \<and> prefix es evs))"

text \<open>
  The first call of the script that raises, run from \<open>w\<close>: it raises \<open>e\<close> and leaves
  \<open>w'\<close>. Every call before it has completed.
\<close>

definition first_failure :: "world \<Rightarrow> oserror \<Rightarrow> world \<Rightarrow> bool" where
  "first_failure w e w' =
     ((\<exists>ys d zs w1.
         directories = ys @ d # zs \<and> for_each Path_mkdir ys w = Done w1 \<and>
         Path_mkdir d w1 = Raised e w') \<or>
      (\<exists>w1 ys f zs w2.
         for_each Path_mkdir directories w = Done w1 \<and>
         files_to_create = ys @ f # zs \<and> for_each touch_and_report ys w1 = Done w2 \<and>
         Path_touch f w2 = Raised e w') \<or>
      (\<exists>w1 w2.
         for_each Path_mkdir directories w = Done w1 \<and>
         for_each touch_and_report files_to_create w1 = Done w2 \<and>
         os_chmod ''scripts/deploy.sh'' 0x1ED w2 = Raised e w'))"

text \<open>
  Sample worlds: an empty working directory with mode \<open>m\<close> under umask 022, and a
  working directory that holds \<^verbatim>\<open>k8s/02-mongodb.yaml\<close> with some contents.
\<close>

definition empty_cwd :: "mode \<Rightarrow> world" where
  "empty_cwd m = \<lparr>fs = [[] \<mapsto> Dir m], umask = 0x12, stdout = [], calls = []\<rparr>"

definition placeholder_cwd :: world where
  "placeholder_cwd =
     \<lparr>fs = [[] \<mapsto> Dir 0x1ED,
            [''k8s''] \<mapsto> Dir 0x1ED,
            [''k8s'', ''02-mongodb.yaml''] \<mapsto> File ''placeholder'' 0x1A4],
      umask = 0x12, stdout = [], calls = []\<rparr>"

section \<open>Auxiliary facts\<close>

declare mkdir_parents.simps [simp del]

lemma stat_from_Some:
  "stat_from t pre cs = Inr n \<Longrightarrow> t (pre @ cs) = Some n"
proof (induction cs arbitrary: pre)
  case Nil
  then show ?case by (simp split: option.splits)
next
  case (Cons c cs)
  from Cons.prems have "stat_from t (pre @ [c]) cs = Inr n"
    by (auto split: option.splits node.splits if_splits)
  from Cons.IH [OF this] show ?case by simp
qed

lemma stat_from_snoc:
  "stat_from t pre (cs @ [c]) =
     (case stat_from t pre cs of
        Inl e \<Rightarrow> Inl e
      | Inr (File _ _) \<Rightarrow> Inl NotADirectoryError
      | Inr (Dir m) \<Rightarrow>
          if owner_x m
          then (case t (pre @ cs @ [c]) of None \<Rightarrow> Inl FileNotFoundError | Some n \<Rightarrow> Inr n)
          else Inl PermissionError)"
  by (induction cs arbitrary: pre) (auto split: option.splits node.splits)

lemma node_le_refl: "node_le n n"
  by (simp add: node_le_def split: node.splits)

lemma node_le_trans: "node_le a b \<Longrightarrow> node_le b c \<Longrightarrow> node_le a c"
  by (auto simp: node_le_def split: node.splits)

lemma fs_le_refl: "fs_le t t"
  by (simp add: fs_le_def node_le_refl)

lemma fs_le_trans: "fs_le a b \<Longrightarrow> fs_le b c \<Longrightarrow> fs_le a c"
  unfolding fs_le_def by (meson node_le_trans)

lemma fs_le_add: "t p = None \<Longrightarrow> fs_le t (t(p \<mapsto> n))"
  by (auto simp: fs_le_def node_le_refl)

lemma fs_le_chmod: "t p = Some n \<Longrightarrow> owner_x md \<Longrightarrow> fs_le t (t(p \<mapsto> set_perm n md))"
  by (auto simp: fs_le_def node_le_refl node_le_def set_perm_def split: node.splits)

lemma node_le_Dir: "node_le (Dir m) n' \<Longrightarrow> \<exists>m'. n' = Dir m' \<and> (owner_x m \<longrightarrow> owner_x m')"
  by (cases n') (simp_all add: node_le_def)

lemma node_le_File: "node_le (File c m) n' \<Longrightarrow> \<exists>m'. n' = File c m'"
  by (cases n') (simp_all add: node_le_def)

lemma fs_le_Dir:
  assumes "fs_le t t'" "t q = Some (Dir m)" "owner_x m"
  shows "\<exists>m'. t' q = Some (Dir m') \<and> owner_x m'"
proof -
  from assms(1,2) obtain n' where "t' q = Some n'" "node_le (Dir m) n'"
    unfolding fs_le_def by blast
  with node_le_Dir [of m n'] assms(3) show ?thesis by auto
qed

lemma stat_from_fs_le:
  "fs_le t t' \<Longrightarrow> stat_from t pre cs = Inr n \<Longrightarrow>
   \<exists>n'. stat_from t' pre cs = Inr n' \<and> node_le n n'"
proof (induction cs arbitrary: pre)
  case Nil
  from Nil.prems(2) have "t pre = Some n" by (simp split: option.splits)
  with Nil.prems(1) obtain n' where "t' pre = Some n'" "node_le n n'"
    unfolding fs_le_def by blast
  then show ?case by simp
next
  case (Cons c cs)
  from Cons.prems(2) obtain m where m: "t pre = Some (Dir m)" "owner_x m"
    and rest: "stat_from t (pre @ [c]) cs = Inr n"
    by (auto split: option.splits node.splits if_splits)
  from fs_le_Dir [OF Cons.prems(1) m] obtain m' where m': "t' pre = Some (Dir m')" "owner_x m'"
    by blast
  from Cons.IH [OF Cons.prems(1) rest] m' show ?case by simp
qed

lemma stat_from_map_le:
  "t \<subseteq>\<^sub>m t' \<Longrightarrow> stat_from t pre cs = Inr n \<Longrightarrow> stat_from t' pre cs = Inr n"
proof (induction cs arbitrary: pre)
  case Nil
  then show ?case by (auto simp: map_le_def dom_def split: option.splits)
next
  case (Cons c cs)
  from Cons.prems(2) obtain m where m: "t pre = Some (Dir m)" "owner_x m"
    and rest: "stat_from t (pre @ [c]) cs = Inr n"
    by (auto split: option.splits node.splits if_splits)
  from Cons.prems(1) m have "t' pre = Some (Dir m)"
    by (metis domI map_le_def)
  with Cons.IH [OF Cons.prems(1) rest] m show ?case by simp
qed

lemma map_le_fs_le: "t \<subseteq>\<^sub>m t' \<Longrightarrow> fs_le t t'"
  by (auto simp: fs_le_def map_le_def dom_def node_le_refl)

text \<open>resolving a path whose parent resolves\<close>
lemma os_stat_child:
  assumes "p \<noteq> []"
  shows "os_stat p w =
     (case os_stat (butlast p) w of
        Inl e \<Rightarrow> Inl e
      | Inr (File _ _) \<Rightarrow> Inl NotADirectoryError
      | Inr (Dir m) \<Rightarrow>
          if owner_x m
          then (case fs w p of None \<Rightarrow> Inl FileNotFoundError | Some n \<Rightarrow> Inr n)
          else Inl PermissionError)"
proof -
  have "butlast p @ [last p] = p" using assms by simp
  with stat_from_snoc [of "fs w" "[]" "butlast p" "last p"] show ?thesis
    by (simp add: os_stat_def split: sum.splits node.splits)
qed

lemma os_stat_Some: "os_stat p w = Inr n \<Longrightarrow> fs w p = Some n"
  unfolding os_stat_def using stat_from_Some [of "fs w" "[]" p n] by simp

lemma os_mkdir_Raised: "os_mkdir p md w = Raised e w' \<Longrightarrow> w' = w"
  by (auto simp: os_mkdir_def split: if_splits sum.splits node.splits)

lemma os_mkdir_Done:
  "os_mkdir p md w = Done w' \<Longrightarrow>
   p \<noteq> [] \<and> fs w p = None \<and> w' = w\<lparr>fs := (fs w)(p \<mapsto> Dir (md AND NOT (umask w)))\<rparr>"
  by (auto simp: os_mkdir_def split: if_splits sum.splits node.splits)

lemma os_mkdir_Done_stat:
  assumes "os_mkdir p md w = Done w'"
  shows "os_stat p w' = Inr (Dir (md AND NOT (umask w)))"
proof -
  from assms have pn: "p \<noteq> []" and none: "fs w p = None"
    and w': "w' = w\<lparr>fs := (fs w)(p \<mapsto> Dir (md AND NOT (umask w)))\<rparr>"
    using os_mkdir_Done by blast+
  from assms pn obtain m where par: "os_stat (butlast p) w = Inr (Dir m)" and x: "owner_x m"
    by (auto simp: os_mkdir_def split: if_splits sum.splits node.splits)
  have le: "fs w \<subseteq>\<^sub>m fs w'" using none w' by (auto simp: map_le_def domIff)
  have "os_stat (butlast p) w' = Inr (Dir m)"
    using stat_from_map_le [OF le] par by (simp add: os_stat_def)
  then show ?thesis using x pn w' by (simp add: os_stat_child [OF pn])
qed

lemma os_mkdir_exists:
  assumes "os_stat p w = Inr n"
  shows "os_mkdir p md w = Raised FileExistsError w"
proof (cases "p = []")
  case True
  with assms show ?thesis by (simp add: os_mkdir_def)
next
  case False
  from assms os_stat_child [OF False, of w]
  obtain m where "os_stat (butlast p) w = Inr (Dir m)" "owner_x m" "fs w p = Some n"
    by (auto split: sum.splits node.splits if_splits option.splits)
  with False show ?thesis by (simp add: os_mkdir_def)
qed

lemma grows_refl: "grows_within S t t"
  by (simp add: grows_within_def)

lemma grows_trans:
  "grows_within S a b \<Longrightarrow> grows_within S' b c \<Longrightarrow> S \<subseteq> U \<Longrightarrow> S' \<subseteq> U \<Longrightarrow> grows_within U a c"
proof -
  assume ab: "grows_within S a b" and bc: "grows_within S' b c" and s: "S \<subseteq> U" "S' \<subseteq> U"
  have "a \<subseteq>\<^sub>m c" using ab bc by (auto simp: grows_within_def intro: map_le_trans)
  moreover have "c q = a q" if "q \<notin> U" for q
  proof -
    from that s have "q \<notin> S" "q \<notin> S'" by auto
    with ab bc show ?thesis by (simp add: grows_within_def)
  qed
  ultimately show ?thesis by (simp add: grows_within_def)
qed

lemma grows_mono: "grows_within S a b \<Longrightarrow> S \<subseteq> U \<Longrightarrow> grows_within U a b"
  unfolding grows_within_def by blast

lemma grows_add: "t p = None \<Longrightarrow> grows_within {p} t (t(p \<mapsto> n))"
  by (auto simp: grows_within_def map_le_def domIff)

lemma world_of_simps [simp]: "world_of (Done w) = w" "world_of (Raised e w) = w"
  by (simp_all add: world_of_def)

lemma os_mkdir_grows: "grows_within {p} (fs w) (fs (world_of (os_mkdir p md w)))"
proof (cases "os_mkdir p md w")
  case (Done w')
  with os_mkdir_Done [OF Done] show ?thesis by (simp add: grows_add)
next
  case (Raised e w')
  with os_mkdir_Raised [OF Raised] show ?thesis by (simp add: grows_refl)
qed

lemma os_mkdir_env:
  "umask (world_of (os_mkdir p md w)) = umask w \<and>
   stdout (world_of (os_mkdir p md w)) = stdout w \<and>
   calls (world_of (os_mkdir p md w)) = calls w"
proof (cases "os_mkdir p md w")
  case (Done w')
  with os_mkdir_Done [OF Done] show ?thesis by simp
next
  case (Raised e w')
  with os_mkdir_Raised [OF Raised] show ?thesis by simp
qed

lemma mkdir_no_parents_cases:
  "mkdir_no_parents p w = os_mkdir p 0x1FF w \<or> mkdir_no_parents p w = Done w"
proof (cases "os_mkdir p 0x1FF w")
  case (Done w')
  then show ?thesis by (simp add: mkdir_no_parents_def)
next
  case (Raised e w')
  with os_mkdir_Raised [OF Raised] show ?thesis by (simp add: mkdir_no_parents_def)
qed

lemma mkdir_no_parents_grows:
  "grows_within {p} (fs w) (fs (world_of (mkdir_no_parents p w)))"
  using mkdir_no_parents_cases [of p w] os_mkdir_grows [of p w "0x1FF"]
  by (auto simp: grows_refl)

lemma mkdir_no_parents_env:
  "umask (world_of (mkdir_no_parents p w)) = umask w \<and>
   stdout (world_of (mkdir_no_parents p w)) = stdout w \<and>
   calls (world_of (mkdir_no_parents p w)) = calls w"
  using mkdir_no_parents_cases [of p w] os_mkdir_env [of p "0x1FF" w]
  by auto

lemma mkdir_no_parents_Done:
  assumes "mkdir_no_parents p w = Done w'"
  shows "\<exists>m. os_stat p w' = Inr (Dir m)"
proof (cases "os_mkdir p 0x1FF w")
  case (Done w1)
  with assms have "w' = w1" by (simp add: mkdir_no_parents_def)
  with os_mkdir_Done_stat [OF Done] show ?thesis by blast
next
  case (Raised e w1)
  with assms have "is_dir p w1" "w' = w1"
    by (auto simp: mkdir_no_parents_def split: if_splits)
  then show ?thesis by (auto simp: is_dir_def split: sum.splits node.splits)
qed

lemma prefixes_butlast: "set (prefixes (butlast p)) \<subseteq> set (prefixes p)"
proof
  fix x assume "x \<in> set (prefixes (butlast p))"
  then have "prefix x (butlast p)" by simp
  from prefix_order.trans [OF this prefixeq_butlast] have "prefix x p" .
  then show "x \<in> set (prefixes p)" by simp
qed

lemma self_prefix: "{p} \<subseteq> set (prefixes p)"
  by simp

lemma mkdir_parents_grows:
  "grows_within (set (prefixes p)) (fs w) (fs (world_of (mkdir_parents p w)))"
proof (induction p w rule: mkdir_parents.induct)
  case (1 p w)
  show ?case
  proof (cases "os_mkdir p 0x1FF w")
    case (Done w1)
    then have "mkdir_parents p w = os_mkdir p 0x1FF w"
      by (simp add: mkdir_parents.simps [of p w])
    with os_mkdir_grows [of p w "0x1FF"] show ?thesis
      by (simp add: grows_mono [OF _ self_prefix])
  next
    case (Raised e w1)
    then have w1: "w1 = w" by (rule os_mkdir_Raised)
    show ?thesis
    proof (cases "e = FileNotFoundError \<and> p \<noteq> []")
      case False
      with Raised w1 have "world_of (mkdir_parents p w) = w"
        by (auto simp: mkdir_parents.simps [of p w])
      then show ?thesis by (simp add: grows_refl)
    next
      case True
      from "1.IH" [OF Raised] True w1
      have up: "grows_within (set (prefixes (butlast p))) (fs w) (fs (world_of (mkdir_parents (butlast p) w)))"
        by simp
      show ?thesis
      proof (cases "mkdir_parents (butlast p) w")
        case r: (Raised e' w2)
        with Raised True w1 have "mkdir_parents p w = Raised e' w2"
          by (simp add: mkdir_parents.simps [of p w])
        with up r show ?thesis by (simp add: grows_mono [OF _ prefixes_butlast])
      next
        case d: (Done w2)
        with Raised True w1 have "mkdir_parents p w = mkdir_no_parents p w2"
          by (simp add: mkdir_parents.simps [of p w])
        with up d mkdir_no_parents_grows [of p w2] show ?thesis
          by (simp add: grows_trans [OF _ _ prefixes_butlast self_prefix])
      qed
    qed
  qed
qed

lemma mkdir_parents_env:
  "umask (world_of (mkdir_parents p w)) = umask w \<and>
   stdout (world_of (mkdir_parents p w)) = stdout w \<and>
   calls (world_of (mkdir_parents p w)) = calls w"
proof (induction p w rule: mkdir_parents.induct)
  case (1 p w)
  show ?case
  proof (cases "os_mkdir p 0x1FF w")
    case (Done w1)
    then have "mkdir_parents p w = os_mkdir p 0x1FF w"
      by (simp add: mkdir_parents.simps [of p w])
    with os_mkdir_env [of p "0x1FF" w] show ?thesis by simp
  next
    case (Raised e w1)
    then have w1: "w1 = w" by (rule os_mkdir_Raised)
    show ?thesis
    proof (cases "e = FileNotFoundError \<and> p \<noteq> []")
      case False
      with Raised w1 have "world_of (mkdir_parents p w) = w"
        by (auto simp: mkdir_parents.simps [of p w])
      then show ?thesis by simp
    next
      case True
      from "1.IH" [OF Raised] True w1
      have up: "umask (world_of (mkdir_parents (butlast p) w)) = umask w \<and>
        stdout (world_of (mkdir_parents (butlast p) w)) = stdout w \<and>
        calls (world_of (mkdir_parents (butlast p) w)) = calls w"
        by simp
      show ?thesis
      proof (cases "mkdir_parents (butlast p) w")
        case r: (Raised e' w2)
        with Raised True w1 have "mkdir_parents p w = Raised e' w2"
          by (simp add: mkdir_parents.simps [of p w])
        with up r show ?thesis by simp
      next
        case d: (Done w2)
        with Raised True w1 have "mkdir_parents p w = mkdir_no_parents p w2"
          by (simp add: mkdir_parents.simps [of p w])
        with up d mkdir_no_parents_env [of p w2] show ?thesis by simp
      qed
    qed
  qed
qed

lemma mkdir_parents_Done:
  assumes "mkdir_parents p w = Done w'"
  shows "\<exists>m. os_stat p w' = Inr (Dir m)"
proof (cases "os_mkdir p 0x1FF w")
  case (Done w1)
  with assms have "w' = w1" by (simp add: mkdir_parents.simps [of p w])
  with os_mkdir_Done_stat [OF Done] show ?thesis by blast
next
  case (Raised e w1)
  show ?thesis
  proof (cases "e = FileNotFoundError")
    case True
    with assms Raised obtain w2 where "mkdir_no_parents p w2 = Done w'"
      by (auto simp: mkdir_parents.simps [of p w] split: if_splits outcome.splits)
    then show ?thesis by (rule mkdir_no_parents_Done)
  next
    case False
    with assms Raised have "is_dir p w1" "w' = w1"
      by (auto simp: mkdir_parents.simps [of p w] split: if_splits)
    then show ?thesis by (auto simp: is_dir_def split: sum.splits node.splits)
  qed
qed

lemma mkdir_parents_exists:
  assumes "os_stat p w = Inr (Dir m)"
  shows "mkdir_parents p w = Done w"
  using os_mkdir_exists [OF assms, of "0x1FF"] assms
  by (simp add: mkdir_parents.simps [of p w] is_dir_def)

lemma os_open_creat_Raised: "os_open_creat p md w = Raised e w' \<Longrightarrow> w' = w"
  by (auto simp: os_open_creat_def split: if_splits sum.splits node.splits option.splits)

lemma touch_Raised: "touch p w = Raised e w' \<Longrightarrow> w' = w"
  by (auto simp: touch_def os_utime_def split: sum.splits dest: os_open_creat_Raised)

lemma touch_exists: "os_stat p w = Inr n \<Longrightarrow> touch p w = Done w"
  by (simp add: touch_def os_utime_def)

lemma touch_Done:
  assumes "touch p w = Done w'"
  shows "(\<exists>n. os_stat p w = Inr n \<and> w' = w) \<or>
         (fs w p = None \<and>
          w' = w\<lparr>fs := (fs w)(p \<mapsto> File [] (0x1B6 AND NOT (umask w)))\<rparr> \<and>
          os_stat p w' = Inr (File [] (0x1B6 AND NOT (umask w))))"
proof (cases "os_stat p w")
  case (Inr n)
  with assms show ?thesis by (simp add: touch_def os_utime_def)
next
  case (Inl e)
  with assms have op: "os_open_creat p 0x1B6 w = Done w'"
    by (simp add: touch_def os_utime_def)
  then have pn: "p \<noteq> []"
    by (auto simp: os_open_creat_def split: sum.splits)
  from op pn obtain m where par: "os_stat (butlast p) w = Inr (Dir m)" and x: "owner_x m"
    by (auto simp: os_open_creat_def split: if_splits sum.splits node.splits)
  from Inl par x os_stat_child [OF pn, of w] have none: "fs w p = None"
    by (auto split: option.splits)
  with op pn par x have w': "w' = w\<lparr>fs := (fs w)(p \<mapsto> File [] (0x1B6 AND NOT (umask w)))\<rparr>"
    by (auto simp: os_open_creat_def split: if_splits)
  have le: "fs w \<subseteq>\<^sub>m fs w'" using none w' by (auto simp: map_le_def domIff)
  have "os_stat (butlast p) w' = Inr (Dir m)"
    using stat_from_map_le [OF le] par by (simp add: os_stat_def)
  then have "os_stat p w' = Inr (File [] (0x1B6 AND NOT (umask w)))"
    using x w' by (simp add: os_stat_child [OF pn])
  with none w' show ?thesis by blast
qed

lemma touch_grows: "grows_within {p} (fs w) (fs (world_of (touch p w)))"
proof (cases "touch p w")
  case (Done w')
  from touch_Done [OF Done] Done show ?thesis
    by (auto simp: grows_refl grows_add)
next
  case (Raised e w')
  with touch_Raised [OF Raised] show ?thesis by (simp add: grows_refl)
qed

lemma touch_env:
  "umask (world_of (touch p w)) = umask w \<and>
   stdout (world_of (touch p w)) = stdout w \<and>
   calls (world_of (touch p w)) = calls w"
proof (cases "touch p w")
  case (Done w')
  from touch_Done [OF Done] Done show ?thesis by auto
next
  case (Raised e w')
  with touch_Raised [OF Raised] show ?thesis by simp
qed

lemma touch_Done_stat: "touch p w = Done w' \<Longrightarrow> \<exists>n. os_stat p w' = Inr n"
  using touch_Done [of p w w'] by auto

text \<open>the entry at the touched path after a touch\<close>
lemma touch_Done_fs:
  assumes "touch p w = Done w'"
  shows "fs w' = (case fs w p of
                    None \<Rightarrow> (fs w)(p \<mapsto> File [] (0x1B6 AND NOT (umask w)))
                  | Some n \<Rightarrow> fs w)"
  using touch_Done [OF assms] by (auto dest: os_stat_Some)

lemma sys_chmod_Raised: "sys_chmod p md w = Raised e w' \<Longrightarrow> w' = w"
  by (auto simp: sys_chmod_def split: sum.splits)

lemma sys_chmod_Done:
  "sys_chmod p md w = Done w' \<Longrightarrow>
   \<exists>n. os_stat p w = Inr n \<and> w' = w\<lparr>fs := (fs w)(p \<mapsto> set_perm n (md AND 0xFFF))\<rparr>"
  by (auto simp: sys_chmod_def split: sum.splits)

lemma stat_from_upd_last:
  "stat_from t pre cs = Inr n \<Longrightarrow> stat_from (t(pre @ cs \<mapsto> n')) pre cs = Inr n'"
proof (induction cs arbitrary: pre)
  case Nil
  then show ?case by simp
next
  case (Cons c cs)
  from Cons.prems obtain m where m: "t pre = Some (Dir m)" "owner_x m"
    and rest: "stat_from t (pre @ [c]) cs = Inr n"
    by (auto split: option.splits node.splits if_splits)
  from Cons.IH [OF rest] m show ?case by simp
qed

lemma sys_chmod_Done_stat:
  assumes "sys_chmod p md w = Done w'"
  shows "\<exists>n. os_stat p w' = Inr n \<and> perm n = md AND 0xFFF"
proof -
  from sys_chmod_Done [OF assms] obtain n where n: "os_stat p w = Inr n"
    and w': "w' = w\<lparr>fs := (fs w)(p \<mapsto> set_perm n (md AND 0xFFF))\<rparr>" by blast
  from stat_from_upd_last [of "fs w" "[]" p n "set_perm n (md AND 0xFFF)"] n w'
  have "os_stat p w' = Inr (set_perm n (md AND 0xFFF))" by (simp add: os_stat_def)
  moreover have "perm (set_perm n (md AND 0xFFF)) = md AND 0xFFF"
    by (cases n) (simp_all add: set_perm_def)
  ultimately show ?thesis by blast
qed

lemma sys_chmod_fs_le:
  assumes "owner_x (md AND 0xFFF)"
  shows "fs_le (fs w) (fs (world_of (sys_chmod p md w)))"
proof (cases "sys_chmod p md w")
  case (Done w')
  from sys_chmod_Done [OF Done] obtain n where n: "os_stat p w = Inr n"
    and w': "w' = w\<lparr>fs := (fs w)(p \<mapsto> set_perm n (md AND 0xFFF))\<rparr>" by blast
  from fs_le_chmod [of "fs w" p n "md AND 0xFFF"] os_stat_Some [OF n] assms Done w'
  show ?thesis by simp
next
  case (Raised e w')
  with sys_chmod_Raised [OF Raised] show ?thesis by (simp add: fs_le_refl)
qed

lemma sys_chmod_frame:
  "q \<noteq> p \<Longrightarrow> fs (world_of (sys_chmod p md w)) q = fs w q"
  by (auto simp: sys_chmod_def split: sum.splits)

lemma sys_chmod_env:
  "umask (world_of (sys_chmod p md w)) = umask w \<and>
   stdout (world_of (sys_chmod p md w)) = stdout w \<and>
   calls (world_of (sys_chmod p md w)) = calls w"
  by (auto simp: sys_chmod_def split: sum.splits)

lemma sys_chmod_same:
  assumes "os_stat p w = Inr n" "perm n = md AND 0xFFF"
  shows "\<exists>w'. sys_chmod p md w = Done w' \<and> fs w' = fs w \<and> umask w' = umask w
           \<and> stdout w' = stdout w \<and> calls w' = calls w"
proof -
  have "set_perm n (md AND 0xFFF) = n" using assms(2) by (cases n) (simp_all add: set_perm_def)
  moreover have "fs w p = Some n" using assms(1) by (rule os_stat_Some)
  ultimately have "(fs w)(p \<mapsto> set_perm n (md AND 0xFFF)) = fs w" by (simp add: map_upd_triv)
  with assms(1) show ?thesis by (simp add: sys_chmod_def)
qed

lemma log_call_simps [simp]:
  "fs (log_call ev w) = fs w" "umask (log_call ev w) = umask w"
  "stdout (log_call ev w) = stdout w" "calls (log_call ev w) = calls w @ [ev]"
  by (simp_all add: log_call_def)

lemma os_stat_log_call [simp]: "os_stat p (log_call ev w) = os_stat p w"
  by (simp add: os_stat_def)

lemma and_then_simps [simp]:
  "and_then (Done w) k = k w" "and_then (Raised e w) k = Raised e w"
  by (simp_all add: and_then_def)

lemma for_each_rel:
  assumes refl: "\<And>w. R w w"
    and trans: "\<And>a b c. R a b \<Longrightarrow> R b c \<Longrightarrow> R a c"
    and step: "\<And>x w. x \<in> set xs \<Longrightarrow> R w (world_of (body x w))"
  shows "R w (world_of (for_each body xs w))"
  using step
proof (induction xs arbitrary: w)
  case Nil
  show ?case by (simp add: refl)
next
  case (Cons x xs)
  have hd: "R w (world_of (body x w))" by (rule Cons.prems) simp
  show ?case
  proof (cases "body x w")
    case (Done w1)
    have "R w1 (world_of (for_each body xs w1))"
      by (rule Cons.IH) (simp add: Cons.prems)
    with hd Done show ?thesis by (auto intro: trans)
  next
    case (Raised e w1)
    with hd show ?thesis by simp
  qed
qed

lemma for_each_establish:
  assumes refl: "\<And>w. R w w"
    and trans: "\<And>a b c. R a b \<Longrightarrow> R b c \<Longrightarrow> R a c"
    and step: "\<And>x w. x \<in> set xs \<Longrightarrow> R w (world_of (body x w))"
    and est: "\<And>x w w'. x \<in> set xs \<Longrightarrow> body x w = Done w' \<Longrightarrow> Q x w'"
    and stable: "\<And>x w w'. Q x w \<Longrightarrow> R w w' \<Longrightarrow> Q x w'"
    and run: "for_each body xs w = Done w'"
  shows "\<forall>x\<in>set xs. Q x w'"
  using step est run
proof (induction xs arbitrary: w)
  case Nil
  show ?case by simp
next
  case (Cons x xs)
  from Cons.prems(3) obtain w1 where b: "body x w = Done w1" and r: "for_each body xs w1 = Done w'"
    by (cases "body x w") auto
  have "Q x w1" using b by (intro Cons.prems(2)) simp_all
  moreover have "R w1 (world_of (for_each body xs w1))"
  proof (rule for_each_rel [of R, OF refl trans])
    fix y v assume "y \<in> set xs"
    then have "y \<in> set (x # xs)" by simp
    then show "R v (world_of (body y v))" by (rule Cons.prems(1))
  qed
  ultimately have "Q x w'" using r stable by fastforce
  moreover have "\<forall>y\<in>set xs. Q y w'"
    by (rule Cons.IH [OF _ _ r]) (simp_all add: Cons.prems)
  ultimately show ?case by simp
qed

lemma for_each_append:
  "for_each body (ys @ zs) w = and_then (for_each body ys w) (for_each body zs)"
proof (induction ys arbitrary: w)
  case Nil
  show ?case by simp
next
  case (Cons y ys)
  then show ?case by (cases "body y w") simp_all
qed

lemma for_each_Raised_iff:
  "for_each body xs w = Raised e w' \<longleftrightarrow>
   (\<exists>ys x zs w1. xs = ys @ x # zs \<and> for_each body ys w = Done w1 \<and> body x w1 = Raised e w')"
proof (induction xs arbitrary: w)
  case Nil
  show ?case by simp
next
  case (Cons a xs)
  show ?case
  proof (cases "body a w")
    case (Raised e1 w1)
    have "(\<exists>ys x zs w1. a # xs = ys @ x # zs \<and> for_each body ys w = Done w1 \<and> body x w1 = Raised e w')
          \<longleftrightarrow> body a w = Raised e w'"
    proof
      assume "\<exists>ys x zs w1. a # xs = ys @ x # zs \<and> for_each body ys w = Done w1 \<and> body x w1 = Raised e w'"
      then obtain ys x zs w2 where s: "a # xs = ys @ x # zs" and d: "for_each body ys w = Done w2"
        and r: "body x w2 = Raised e w'" by blast
      show "body a w = Raised e w'"
      proof (cases ys)
        case Nil
        with s d r show ?thesis by simp
      next
        case (Cons y ys')
        with s d Raised show ?thesis by simp
      qed
    next
      assume "body a w = Raised e w'"
      then have "a # xs = [] @ a # xs \<and> for_each body [] w = Done w \<and> body a w = Raised e w'" by simp
      then show "\<exists>ys x zs w1. a # xs = ys @ x # zs \<and> for_each body ys w = Done w1 \<and> body x w1 = Raised e w'"
        by blast
    qed
    with Raised show ?thesis by auto
  next
    case (Done w1)
    have "(\<exists>ys x zs w2. a # xs = ys @ x # zs \<and> for_each body ys w = Done w2 \<and> body x w2 = Raised e w')
          \<longleftrightarrow> (\<exists>ys x zs w2. xs = ys @ x # zs \<and> for_each body ys w1 = Done w2 \<and> body x w2 = Raised e w')"
    proof
      assume "\<exists>ys x zs w2. a # xs = ys @ x # zs \<and> for_each body ys w = Done w2 \<and> body x w2 = Raised e w'"
      then obtain ys x zs w2 where s: "a # xs = ys @ x # zs" and d: "for_each body ys w = Done w2"
        and r: "body x w2 = Raised e w'" by blast
      show "\<exists>ys x zs w2. xs = ys @ x # zs \<and> for_each body ys w1 = Done w2 \<and> body x w2 = Raised e w'"
      proof (cases ys)
        case Nil
        with s d r Done show ?thesis by simp
      next
        case (Cons y ys')
        with s d Done have "xs = ys' @ x # zs \<and> for_each body ys' w1 = Done w2" by simp
        with r show ?thesis by blast
      qed
    next
      assume "\<exists>ys x zs w2. xs = ys @ x # zs \<and> for_each body ys w1 = Done w2 \<and> body x w2 = Raised e w'"
      then obtain ys x zs w2 where s: "xs = ys @ x # zs" and d: "for_each body ys w1 = Done w2"
        and r: "body x w2 = Raised e w'" by blast
      from s d Done have "a # xs = (a # ys) @ x # zs \<and> for_each body (a # ys) w = Done w2" by simp
      with r show "\<exists>ys x zs w2. a # xs = ys @ x # zs \<and> for_each body ys w = Done w2 \<and> body x w2 = Raised e w'"
        by blast
    qed
    with Done Cons.IH [of w1] show ?thesis by simp
  qed
qed

lemma for_each_noop:
  assumes step: "\<And>x w. x \<in> set xs \<Longrightarrow> fs w = t \<Longrightarrow> \<exists>w'. body x w = Done w' \<and> fs w' = t"
    and start: "fs w = t"
  shows "\<exists>w'. for_each body xs w = Done w' \<and> fs w' = t"
  using step start
proof (induction xs arbitrary: w)
  case Nil
  then show ?case by simp
next
  case (Cons x xs)
  from Cons.prems(1) [of x w] Cons.prems(2) obtain w1 where b: "body x w = Done w1" and f: "fs w1 = t"
    by auto
  have "\<exists>w'. for_each body xs w1 = Done w' \<and> fs w' = t"
    by (rule Cons.IH [OF _ f]) (simp add: Cons.prems(1))
  with b show ?case by simp
qed

lemma emits_and_then:
  assumes "emits r w A" and "\<And>w1. r = Done w1 \<Longrightarrow> emits (k w1) w1 B"
  shows "emits (and_then r k) w (A @ B)"
proof (cases r)
  case (Raised e w1)
  with assms(1) show ?thesis by (auto simp: emits_def intro: prefix_order.trans)
next
  case (Done w1)
  from assms(2) [OF Done] assms(1) Done show ?thesis
    by (cases "k w1") (auto simp: emits_def)
qed

lemma emits_for_each:
  assumes "\<And>x w. emits (body x w) w (ev x)"
  shows "emits (for_each body xs w) w (concat (map ev xs))"
proof (induction xs arbitrary: w)
  case Nil
  show ?case by (simp add: emits_def)
next
  case (Cons x xs)
  from emits_and_then [of "body x w" w "ev x" "for_each body xs" "concat (map ev xs)"]
    assms Cons.IH show ?case by simp
qed

lemma Path_mkdir_grows:
  "grows_within (set (prefixes (Path d))) (fs w) (fs (world_of (Path_mkdir d w)))"
  using mkdir_parents_grows [of "Path d" "log_call (CallMkdir d) w"]
  by (simp add: Path_mkdir_def)

lemma Path_mkdir_env:
  "umask (world_of (Path_mkdir d w)) = umask w \<and>
   stdout (world_of (Path_mkdir d w)) = stdout w \<and>
   calls (world_of (Path_mkdir d w)) = calls w @ [CallMkdir d]"
  using mkdir_parents_env [of "Path d" "log_call (CallMkdir d) w"]
  by (simp add: Path_mkdir_def)

lemma Path_mkdir_Done: "Path_mkdir d w = Done w' \<Longrightarrow> \<exists>m. os_stat (Path d) w' = Inr (Dir m)"
  unfolding Path_mkdir_def by (rule mkdir_parents_Done)

lemma Path_mkdir_exists:
  "os_stat (Path d) w = Inr (Dir m) \<Longrightarrow> Path_mkdir d w = Done (log_call (CallMkdir d) w)"
  unfolding Path_mkdir_def by (rule mkdir_parents_exists [of _ _ m]) simp

lemma Path_touch_grows:
  "grows_within {Path f} (fs w) (fs (world_of (Path_touch f w)))"
  using touch_grows [of "Path f" "log_call (CallTouch f) w"]
  by (simp add: Path_touch_def)

lemma Path_touch_env:
  "umask (world_of (Path_touch f w)) = umask w \<and>
   stdout (world_of (Path_touch f w)) = stdout w \<and>
   calls (world_of (Path_touch f w)) = calls w @ [CallTouch f]"
  using touch_env [of "Path f" "log_call (CallTouch f) w"]
  by (simp add: Path_touch_def)

lemma Path_touch_exists:
  "os_stat (Path f) w = Inr n \<Longrightarrow> Path_touch f w = Done (log_call (CallTouch f) w)"
  unfolding Path_touch_def by (rule touch_exists [of _ _ n]) simp

lemma touch_and_report_Raised:
  "touch_and_report f w = Raised e w' \<longleftrightarrow> Path_touch f w = Raised e w'"
  by (cases "Path_touch f w") (simp_all add: touch_and_report_def print_def)

lemma touch_and_report_Done:
  "touch_and_report f w = Done w' \<longleftrightarrow>
   (\<exists>w1. Path_touch f w = Done w1 \<and>
         w' = (log_call (CallPrint (created_line f)) w1)
                \<lparr>stdout := stdout w1 @ created_line f @ [newline]\<rparr>)"
  by (cases "Path_touch f w") (auto simp: touch_and_report_def print_def)

lemma touch_and_report_world:
  "fs (world_of (touch_and_report f w)) = fs (world_of (Path_touch f w)) \<and>
   umask (world_of (touch_and_report f w)) = umask (world_of (Path_touch f w))"
  by (cases "Path_touch f w") (simp_all add: touch_and_report_def print_def)

lemma touch_and_report_grows:
  "grows_within {Path f} (fs w) (fs (world_of (touch_and_report f w)))"
  using Path_touch_grows [of f w] by (simp add: touch_and_report_world)

lemma touch_and_report_umask: "umask (world_of (touch_and_report f w)) = umask w"
  using Path_touch_env [of f w] by (simp add: touch_and_report_world)

lemma touch_and_report_Done_stat:
  assumes "touch_and_report f w = Done w'"
  shows "\<exists>n. os_stat (Path f) w' = Inr n"
proof -
  from assms obtain w1 where t: "Path_touch f w = Done w1" and "fs w' = fs w1"
    by (auto simp: touch_and_report_Done)
  then have "os_stat (Path f) w' = os_stat (Path f) w1" by (simp add: os_stat_def)
  with touch_Done_stat [of "Path f" "log_call (CallTouch f) w" w1] t show ?thesis
    by (simp add: Path_touch_def)
qed

lemma touch_and_report_Done_fs:
  assumes "touch_and_report f w = Done w'"
  shows "fs w' = (case fs w (Path f) of
                    None \<Rightarrow> (fs w)(Path f \<mapsto> File [] (0x1B6 AND NOT (umask w)))
                  | Some n \<Rightarrow> fs w)"
proof -
  from assms obtain w1 where t: "Path_touch f w = Done w1" and "fs w' = fs w1"
    by (auto simp: touch_and_report_Done)
  with touch_Done_fs [of "Path f" "log_call (CallTouch f) w" w1] show ?thesis
    by (simp add: Path_touch_def split: option.splits)
qed

lemma touch_and_report_exists:
  "os_stat (Path f) w = Inr n \<Longrightarrow> \<exists>w'. touch_and_report f w = Done w' \<and> fs w' = fs w"
  by (simp add: touch_and_report_Done Path_touch_exists)

subsection \<open>the two loops\<close>

lemma mkdir_loop_rel:
  "grows_within (\<Union>d\<in>set ds. set (prefixes (Path d))) (fs w)
     (fs (world_of (for_each Path_mkdir ds w))) \<and>
   umask (world_of (for_each Path_mkdir ds w)) = umask w \<and>
   stdout (world_of (for_each Path_mkdir ds w)) = stdout w"
proof (rule for_each_rel [of "\<lambda>a b. grows_within (\<Union>d\<in>set ds. set (prefixes (Path d))) (fs a) (fs b) \<and>
   umask b = umask a \<and> stdout b = stdout a"])
  show "\<And>w. grows_within (\<Union>d\<in>set ds. set (prefixes (Path d))) (fs w) (fs w) \<and> umask w = umask w \<and> stdout w = stdout w"
    by (simp add: grows_refl)
next
  fix a b c :: world
  assume "grows_within (\<Union>d\<in>set ds. set (prefixes (Path d))) (fs a) (fs b) \<and> umask b = umask a \<and> stdout b = stdout a"
    and "grows_within (\<Union>d\<in>set ds. set (prefixes (Path d))) (fs b) (fs c) \<and> umask c = umask b \<and> stdout c = stdout b"
  then show "grows_within (\<Union>d\<in>set ds. set (prefixes (Path d))) (fs a) (fs c) \<and> umask c = umask a \<and> stdout c = stdout a"
    using grows_trans [of _ "fs a" "fs b" _ "fs c"] by auto
next
  fix x w assume x: "x \<in> set ds"
  then have "set (prefixes (Path x)) \<subseteq> (\<Union>d\<in>set ds. set (prefixes (Path d)))" by blast
  from grows_mono [OF Path_mkdir_grows this] Path_mkdir_env [of x w]
  show "grows_within (\<Union>d\<in>set ds. set (prefixes (Path d))) (fs w) (fs (world_of (Path_mkdir x w))) \<and>
    umask (world_of (Path_mkdir x w)) = umask w \<and> stdout (world_of (Path_mkdir x w)) = stdout w"
    by simp
qed

lemma grows_fs_le: "grows_within S t t' \<Longrightarrow> fs_le t t'"
  by (simp add: grows_within_def map_le_fs_le)

lemma os_stat_fs_le:
  "fs_le (fs w) (fs w') \<Longrightarrow> os_stat p w = Inr n \<Longrightarrow> \<exists>n'. os_stat p w' = Inr n' \<and> node_le n n'"
  unfolding os_stat_def by (rule stat_from_fs_le)

lemma os_stat_fs_le_Dir:
  assumes "fs_le (fs w) (fs w')" "os_stat p w = Inr (Dir m)"
  shows "\<exists>m'. os_stat p w' = Inr (Dir m')"
proof -
  from os_stat_fs_le [OF assms] obtain n' where "os_stat p w' = Inr n'" "node_le (Dir m) n'"
    by blast
  with node_le_Dir [of m n'] show ?thesis by auto
qed

lemma mkdir_loop_dirs:
  assumes "for_each Path_mkdir ds w = Done w'"
  shows "\<forall>d\<in>set ds. \<exists>m. os_stat (Path d) w' = Inr (Dir m)"
proof (rule for_each_establish [of "\<lambda>a b. fs_le (fs a) (fs b)" ds Path_mkdir
      "\<lambda>d v. \<exists>m. os_stat (Path d) v = Inr (Dir m)" w w'])
  show "\<And>w. fs_le (fs w) (fs w)" by (rule fs_le_refl)
  show "\<And>a b c. fs_le (fs a) (fs b) \<Longrightarrow> fs_le (fs b) (fs c) \<Longrightarrow> fs_le (fs a) (fs c)"
    by (rule fs_le_trans)
  show "\<And>x w. x \<in> set ds \<Longrightarrow> fs_le (fs w) (fs (world_of (Path_mkdir x w)))"
    using Path_mkdir_grows grows_fs_le by blast
  show "\<And>x w w'. x \<in> set ds \<Longrightarrow> Path_mkdir x w = Done w' \<Longrightarrow> \<exists>m. os_stat (Path x) w' = Inr (Dir m)"
    by (rule Path_mkdir_Done)
  show "\<And>x w w'. \<exists>m. os_stat (Path x) w = Inr (Dir m) \<Longrightarrow> fs_le (fs w) (fs w') \<Longrightarrow>
      \<exists>m. os_stat (Path x) w' = Inr (Dir m)"
    using os_stat_fs_le_Dir by blast
  show "for_each Path_mkdir ds w = Done w'" by (rule assms)
qed

lemma touch_loop_rel:
  "grows_within (Path ` set fl) (fs w) (fs (world_of (for_each touch_and_report fl w))) \<and>
   umask (world_of (for_each touch_and_report fl w)) = umask w"
proof (rule for_each_rel [of "\<lambda>a b. grows_within (Path ` set fl) (fs a) (fs b) \<and> umask b = umask a"])
  show "\<And>w. grows_within (Path ` set fl) (fs w) (fs w) \<and> umask w = umask w"
    by (simp add: grows_refl)
next
  fix a b c :: world
  assume "grows_within (Path ` set fl) (fs a) (fs b) \<and> umask b = umask a"
    and "grows_within (Path ` set fl) (fs b) (fs c) \<and> umask c = umask b"
  then show "grows_within (Path ` set fl) (fs a) (fs c) \<and> umask c = umask a"
    using grows_trans [of _ "fs a" "fs b" _ "fs c"] by auto
next
  fix x w assume x: "x \<in> set fl"
  then have "{Path x} \<subseteq> Path ` set fl" by blast
  from grows_mono [OF touch_and_report_grows this] touch_and_report_umask [of x w]
  show "grows_within (Path ` set fl) (fs w) (fs (world_of (touch_and_report x w))) \<and>
    umask (world_of (touch_and_report x w)) = umask w"
    by simp
qed

lemma touch_loop_files:
  assumes "for_each touch_and_report fl w = Done w'"
  shows "\<forall>f\<in>set fl. \<exists>n. os_stat (Path f) w' = Inr n"
proof (rule for_each_establish [of "\<lambda>a b. fs_le (fs a) (fs b)" fl touch_and_report
      "\<lambda>f v. \<exists>n. os_stat (Path f) v = Inr n" w w'])
  show "\<And>w. fs_le (fs w) (fs w)" by (rule fs_le_refl)
  show "\<And>a b c. fs_le (fs a) (fs b) \<Longrightarrow> fs_le (fs b) (fs c) \<Longrightarrow> fs_le (fs a) (fs c)"
    by (rule fs_le_trans)
  show "\<And>x w. x \<in> set fl \<Longrightarrow> fs_le (fs w) (fs (world_of (touch_and_report x w)))"
    using touch_and_report_grows grows_fs_le by blast
  show "\<And>x w w'. x \<in> set fl \<Longrightarrow> touch_and_report x w = Done w' \<Longrightarrow> \<exists>n. os_stat (Path x) w' = Inr n"
    by (rule touch_and_report_Done_stat)
  show "\<And>x w w'. \<exists>n. os_stat (Path x) w = Inr n \<Longrightarrow> fs_le (fs w) (fs w') \<Longrightarrow>
      \<exists>n. os_stat (Path x) w' = Inr n"
    using os_stat_fs_le by blast
  show "for_each touch_and_report fl w = Done w'" by (rule assms)
qed

lemma touch_loop_fs:
  "for_each touch_and_report fl w = Done w' \<Longrightarrow>
   fs w' q = (if q \<in> Path ` set fl
              then (case fs w q of
                      None \<Rightarrow> Some (File [] (0x1B6 AND NOT (umask w)))
                    | Some n \<Rightarrow> Some n)
              else fs w q)"
proof (induction fl arbitrary: w)
  case Nil
  then show ?case by simp
next
  case (Cons f fl)
  from Cons.prems obtain w1 where b: "touch_and_report f w = Done w1"
    and r: "for_each touch_and_report fl w1 = Done w'"
    by (cases "touch_and_report f w") auto
  from touch_and_report_umask [of f w] b have u: "umask w1 = umask w" by simp
  from touch_and_report_Done_fs [OF b]
  have f1: "fs w1 = (case fs w (Path f) of
                    None \<Rightarrow> (fs w)(Path f \<mapsto> File [] (0x1B6 AND NOT (umask w)))
                  | Some n \<Rightarrow> fs w)" .
  from Cons.IH [OF r] u f1 show ?case
    by (auto split: option.splits)
qed

lemma touch_loop_stdout:
  "for_each touch_and_report fl w = Done w' \<Longrightarrow>
   stdout w' = stdout w @ concat (map (\<lambda>f. created_line f @ [newline]) fl)"
proof (induction fl arbitrary: w)
  case Nil
  then show ?case by simp
next
  case (Cons f fl)
  from Cons.prems obtain w1 where b: "touch_and_report f w = Done w1"
    and r: "for_each touch_and_report fl w1 = Done w'"
    by (cases "touch_and_report f w") auto
  from b Path_touch_env [of f w] have "stdout w1 = stdout w @ created_line f @ [newline]"
    by (auto simp: touch_and_report_Done)
  with Cons.IH [OF r] show ?case by simp
qed

lemma Path_deploy: "Path ''scripts/deploy.sh'' = [''scripts'', ''deploy.sh'']"
  by (simp add: Path_def)

lemma dir_paths:
  "map Path directories =
     [[''api''], [''worker''], [''k8s''], [''scripts''], [''.github'', ''workflows'']]"
  by (simp add: directories_def Path_def)

lemma file_paths:
  "map Path files_to_create =
     [[''api'', ''Dockerfile''], [''worker'', ''Dockerfile''],
      [''k8s'', ''01-namespace-config.yaml''], [''k8s'', ''02-mongodb.yaml''],
      [''k8s'', ''03-api-service.yaml''], [''k8s'', ''04-keda-scaledjob.yaml''],
      [''k8s'', ''05-prometheus.yaml''], [''k8s'', ''06-grafana.yaml''],
      [''.github'', ''workflows'', ''ci-cd.yml''], [''scripts'', ''deploy.sh''],
      [''env.example''], [''docker-compose.dev.yml''], [''Makefile'']]"
  by (simp add: files_to_create_def Path_def)

lemma files_not_dirs_aux:
  "\<forall>p\<in>set (map Path files_to_create).
     p \<notin> (\<Union>q\<in>set (map Path directories). set (prefixes q))"
  unfolding file_paths dir_paths by simp

lemma files_not_dirs:
  "f \<in> set files_to_create \<Longrightarrow> Path f \<notin> (\<Union>d\<in>set directories. set (prefixes (Path d)))"
  using files_not_dirs_aux by simp

lemma deploy_in_files: "''scripts/deploy.sh'' \<in> set files_to_create"
  by (simp add: files_to_create_def)

lemma Path_deploy_only_aux:
  "\<forall>f\<in>set files_to_create. f \<noteq> ''scripts/deploy.sh'' \<longrightarrow> Path f \<noteq> [''scripts'', ''deploy.sh'']"
  unfolding files_to_create_def by (simp add: Path_def)

lemma Path_deploy_only:
  "f \<in> set files_to_create \<Longrightarrow> f \<noteq> ''scripts/deploy.sh'' \<Longrightarrow> Path f \<noteq> Path ''scripts/deploy.sh''"
  using Path_deploy_only_aux by (simp add: Path_deploy)

lemma owner_x_755: "owner_x (0x1ED AND 0xFFF)"
  by (simp add: owner_x_def)

lemma os_stat_cong: "fs w = fs w' \<Longrightarrow> os_stat p w = os_stat p w'"
  by (simp add: os_stat_def)

lemma run_Done:
  assumes "create_project_structure w = Done w'"
  obtains w1 w2 w3 where
    "for_each Path_mkdir directories w = Done w1"
    "for_each touch_and_report files_to_create w1 = Done w2"
    "sys_chmod (Path ''scripts/deploy.sh'') 0x1ED (log_call (CallChmod ''scripts/deploy.sh'' 0x1ED) w2) = Done w3"
    "fs w' = fs w3" "umask w' = umask w3"
    "stdout w' = stdout w3 @ [newline] @ summary_line @ [newline] @ usage_hint @ [newline]"
proof -
  from assms obtain w1 where 1: "for_each Path_mkdir directories w = Done w1"
    by (cases "for_each Path_mkdir directories w") (auto simp: create_project_structure_def)
  with assms obtain w2 where 2: "for_each touch_and_report files_to_create w1 = Done w2"
    by (cases "for_each touch_and_report files_to_create w1") (auto simp: create_project_structure_def)
  with assms 1 obtain w3 where 3: "os_chmod ''scripts/deploy.sh'' 0x1ED w2 = Done w3"
    by (cases "os_chmod ''scripts/deploy.sh'' 0x1ED w2") (auto simp: create_project_structure_def)
  from assms 1 2 3 have "fs w' = fs w3 \<and> umask w' = umask w3 \<and>
    stdout w' = stdout w3 @ [newline] @ summary_line @ [newline] @ usage_hint @ [newline]"
    by (auto simp: create_project_structure_def print_def)
  with 1 2 3 that show ?thesis by (simp add: os_chmod_def)
qed

lemma run_stdout:
  assumes "create_project_structure w = Done w'"
  shows "stdout w' = stdout w @ script_output"
proof -
  from assms obtain w1 w2 w3 where
    1: "for_each Path_mkdir directories w = Done w1" and
    2: "for_each touch_and_report files_to_create w1 = Done w2" and
    3: "sys_chmod (Path ''scripts/deploy.sh'') 0x1ED (log_call (CallChmod ''scripts/deploy.sh'' 0x1ED) w2) = Done w3" and
    4: "stdout w' = stdout w3 @ [newline] @ summary_line @ [newline] @ usage_hint @ [newline]"
    by (rule run_Done)
  from mkdir_loop_rel [of directories w] 1 have "stdout w1 = stdout w" by simp
  moreover note touch_loop_stdout [OF 2]
  moreover from sys_chmod_env [of "Path ''scripts/deploy.sh''" "0x1ED" "log_call (CallChmod ''scripts/deploy.sh'' 0x1ED) w2"] 3
  have "stdout w3 = stdout w2" by simp
  ultimately show ?thesis using 4 by (simp add: script_output_def)
qed

lemma run_umask:
  assumes "create_project_structure w = Done w'"
  shows "umask w' = umask w"
proof -
  from assms obtain w1 w2 w3 where
    1: "for_each Path_mkdir directories w = Done w1" and
    2: "for_each touch_and_report files_to_create w1 = Done w2" and
    3: "sys_chmod (Path ''scripts/deploy.sh'') 0x1ED (log_call (CallChmod ''scripts/deploy.sh'' 0x1ED) w2) = Done w3" and
    4: "umask w' = umask w3"
    by (rule run_Done)
  from mkdir_loop_rel [of directories w] 1 have "umask w1 = umask w" by simp
  moreover from touch_loop_rel [of files_to_create w1] 2 have "umask w2 = umask w1" by simp
  moreover from sys_chmod_env [of "Path ''scripts/deploy.sh''" "0x1ED" "log_call (CallChmod ''scripts/deploy.sh'' 0x1ED) w2"] 3
  have "umask w3 = umask w2" by simp
  ultimately show ?thesis using 4 by simp
qed

lemma run_fs_le:
  assumes "create_project_structure w = Done w'"
  shows "fs_le (fs w) (fs w')"
proof -
  from assms obtain w1 w2 w3 where
    1: "for_each Path_mkdir directories w = Done w1" and
    2: "for_each touch_and_report files_to_create w1 = Done w2" and
    3: "sys_chmod (Path ''scripts/deploy.sh'') 0x1ED (log_call (CallChmod ''scripts/deploy.sh'' 0x1ED) w2) = Done w3" and
    4: "fs w' = fs w3"
    by (rule run_Done)
  from mkdir_loop_rel [of directories w] 1 have "fs_le (fs w) (fs w1)"
    by (auto dest: grows_fs_le)
  moreover from touch_loop_rel [of files_to_create w1] 2 have "fs_le (fs w1) (fs w2)"
    by (auto dest: grows_fs_le)
  moreover from sys_chmod_fs_le [OF owner_x_755, of "log_call (CallChmod ''scripts/deploy.sh'' 0x1ED) w2" "Path ''scripts/deploy.sh''"] 3
  have "fs_le (fs w2) (fs w3)" by simp
  ultimately show ?thesis using 4 by (auto intro: fs_le_trans)
qed

lemma run_frame:
  assumes "create_project_structure w = Done w'" "fs w q = Some n" "q \<noteq> Path ''scripts/deploy.sh''"
  shows "fs w' q = Some n"
proof -
  from assms(1) obtain w1 w2 w3 where
    1: "for_each Path_mkdir directories w = Done w1" and
    2: "for_each touch_and_report files_to_create w1 = Done w2" and
    3: "sys_chmod (Path ''scripts/deploy.sh'') 0x1ED (log_call (CallChmod ''scripts/deploy.sh'' 0x1ED) w2) = Done w3" and
    4: "fs w' = fs w3"
    by (rule run_Done)
  from mkdir_loop_rel [of directories w] 1 have "fs w \<subseteq>\<^sub>m fs w1"
    by (simp add: grows_within_def)
  with assms(2) have "fs w1 q = Some n" by (metis domI map_le_def)
  moreover from touch_loop_rel [of files_to_create w1] 2 have "fs w1 \<subseteq>\<^sub>m fs w2"
    by (simp add: grows_within_def)
  ultimately have "fs w2 q = Some n" by (metis domI map_le_def)
  moreover from sys_chmod_frame [OF assms(3), of "0x1ED" "log_call (CallChmod ''scripts/deploy.sh'' 0x1ED) w2"] 3
  have "fs w3 q = fs w2 q" by simp
  ultimately show ?thesis using 4 by simp
qed

lemma run_new_file:
  assumes "create_project_structure w = Done w'" "f \<in> set files_to_create" "fs w (Path f) = None"
  shows "fs w' (Path f) =
    Some (File [] (if f = ''scripts/deploy.sh'' then 0x1ED else 0x1B6 AND NOT (umask w)))"
proof -
  from assms(1) obtain w1 w2 w3 where
    1: "for_each Path_mkdir directories w = Done w1" and
    2: "for_each touch_and_report files_to_create w1 = Done w2" and
    3: "sys_chmod (Path ''scripts/deploy.sh'') 0x1ED (log_call (CallChmod ''scripts/deploy.sh'' 0x1ED) w2) = Done w3" and
    4: "fs w' = fs w3"
    by (rule run_Done)
  from mkdir_loop_rel [of directories w] 1 files_not_dirs [OF assms(2)]
  have "fs w1 (Path f) = fs w (Path f)" and u: "umask w1 = umask w"
    by (simp_all add: grows_within_def)
  with assms(3) have "fs w1 (Path f) = None" by simp
  with touch_loop_fs [OF 2, of "Path f"] assms(2) u
  have w2: "fs w2 (Path f) = Some (File [] (0x1B6 AND NOT (umask w)))" by simp
  show ?thesis
  proof (cases "f = ''scripts/deploy.sh''")
    case False
    from sys_chmod_frame [OF Path_deploy_only [OF assms(2) False], of "0x1ED" "log_call (CallChmod ''scripts/deploy.sh'' 0x1ED) w2"] 3
    have "fs w3 (Path f) = fs w2 (Path f)" by simp
    with w2 4 False show ?thesis by simp
  next
    case True
    from sys_chmod_Done [OF 3] obtain n where n: "os_stat (Path ''scripts/deploy.sh'') w2 = Inr n"
      and w3: "w3 = (log_call (CallChmod ''scripts/deploy.sh'' 0x1ED) w2)\<lparr>fs := (fs w2)(Path ''scripts/deploy.sh'' \<mapsto> set_perm n (0x1ED AND 0xFFF))\<rparr>"
      by auto
    from os_stat_Some [OF n] w2 True have "n = File [] (0x1B6 AND NOT (umask w))" by simp
    with w3 4 True show ?thesis by (simp add: set_perm_def)
  qed
qed

lemma run_deploy:
  assumes "create_project_structure w = Done w'"
  shows "\<exists>n. os_stat (Path ''scripts/deploy.sh'') w' = Inr n \<and> perm n = 0x1ED"
proof -
  from assms(1) obtain w2 w3 where
    3: "sys_chmod (Path ''scripts/deploy.sh'') 0x1ED (log_call (CallChmod ''scripts/deploy.sh'' 0x1ED) w2) = Done w3" and
    4: "fs w' = fs w3"
    by (rule run_Done)
  from sys_chmod_Done_stat [OF 3] os_stat_cong [OF 4] show ?thesis by simp
qed

lemma run_resolves:
  assumes "create_project_structure w = Done w'"
  shows "(\<forall>d\<in>set directories. \<exists>m. os_stat (Path d) w' = Inr (Dir m)) \<and>
         (\<forall>f\<in>set files_to_create. \<exists>n. os_stat (Path f) w' = Inr n)"
proof -
  from assms(1) obtain w1 w2 w3 where
    1: "for_each Path_mkdir directories w = Done w1" and
    2: "for_each touch_and_report files_to_create w1 = Done w2" and
    3: "sys_chmod (Path ''scripts/deploy.sh'') 0x1ED (log_call (CallChmod ''scripts/deploy.sh'' 0x1ED) w2) = Done w3" and
    4: "fs w' = fs w3"
    by (rule run_Done)
  from touch_loop_rel [of files_to_create w1] 2 have a: "fs_le (fs w1) (fs w2)"
    by (auto dest: grows_fs_le)
  from sys_chmod_fs_le [OF owner_x_755, of "log_call (CallChmod ''scripts/deploy.sh'' 0x1ED) w2" "Path ''scripts/deploy.sh''"] 3
  have b: "fs_le (fs w2) (fs w3)" by simp
  from b 4 have b': "fs_le (fs w2) (fs w')" by simp
  from fs_le_trans [OF a b'] have ab: "fs_le (fs w1) (fs w')" .
  have "\<exists>m. os_stat (Path d) w' = Inr (Dir m)" if "d \<in> set directories" for d
    using mkdir_loop_dirs [OF 1] that os_stat_fs_le_Dir [OF ab] by blast
  moreover have "\<exists>n. os_stat (Path f) w' = Inr n" if "f \<in> set files_to_create" for f
    using touch_loop_files [OF 2] that os_stat_fs_le [OF b'] by blast
  ultimately show ?thesis by blast
qed

lemma rerun:
  assumes dirs: "\<forall>d\<in>set directories. \<exists>m. os_stat (Path d) w = Inr (Dir m)"
    and files: "\<forall>f\<in>set files_to_create. \<exists>n. os_stat (Path f) w = Inr n"
    and deploy: "\<exists>n. os_stat (Path ''scripts/deploy.sh'') w = Inr n \<and> perm n = 0x1ED"
  shows "\<exists>w'. create_project_structure w = Done w' \<and> fs w' = fs w"
proof -
  have "\<exists>w1. for_each Path_mkdir directories w = Done w1 \<and> fs w1 = fs w"
  proof (rule for_each_noop)
    fix d and v :: world assume d: "d \<in> set directories" and v: "fs v = fs w"
    from dirs d obtain m where "os_stat (Path d) w = Inr (Dir m)" by blast
    with os_stat_cong [OF v] have "os_stat (Path d) v = Inr (Dir m)" by simp
    from Path_mkdir_exists [OF this] v show "\<exists>w'. Path_mkdir d v = Done w' \<and> fs w' = fs w"
      by simp
  qed simp
  then obtain w1 where 1: "for_each Path_mkdir directories w = Done w1" and f1: "fs w1 = fs w"
    by blast
  have "\<exists>w2. for_each touch_and_report files_to_create w1 = Done w2 \<and> fs w2 = fs w"
  proof (rule for_each_noop)
    fix f and v :: world assume f: "f \<in> set files_to_create" and v: "fs v = fs w"
    from files f obtain n where "os_stat (Path f) w = Inr n" by blast
    with os_stat_cong [OF v] have "os_stat (Path f) v = Inr n" by simp
    from touch_and_report_exists [OF this] v show "\<exists>w'. touch_and_report f v = Done w' \<and> fs w' = fs w"
      by simp
  qed (rule f1)
  then obtain w2 where 2: "for_each touch_and_report files_to_create w1 = Done w2" and f2: "fs w2 = fs w"
    by blast
  from deploy obtain n where "os_stat (Path ''scripts/deploy.sh'') w = Inr n" and p: "perm n = 0x1ED AND 0xFFF"
    by auto
  with os_stat_cong [OF f2] have "os_stat (Path ''scripts/deploy.sh'') (log_call (CallChmod ''scripts/deploy.sh'' 0x1ED) w2) = Inr n"
    by simp
  from sys_chmod_same [OF this p] obtain w3 where
    3: "os_chmod ''scripts/deploy.sh'' 0x1ED w2 = Done w3" and f3: "fs w3 = fs w2"
    by (auto simp: os_chmod_def)
  from 1 2 3 f2 f3 show ?thesis
    by (simp add: create_project_structure_def print_def)
qed

lemma run_empty_ok:
  assumes "fs w = [[] \<mapsto> Dir m]" "owner_w m" "owner_x m" "\<not> bit (umask w) 6" "\<not> bit (umask w) 7"
  shows "\<exists>w'. create_project_structure w = Done w'"
proof -
  have x: "owner_x (0x1FF AND NOT (umask w))" and y: "owner_w (0x1FF AND NOT (umask w))"
    using assms(4,5) by (simp_all add: owner_x_def owner_w_def bit_simps)
  show ?thesis using assms(1-3) x y
  by (simp add: create_project_structure_def directories_def files_to_create_def Path_mkdir_def Path_touch_def os_chmod_def touch_and_report_def print_def Path_def os_mkdir_def os_stat_def is_dir_def touch_def os_utime_def os_open_creat_def sys_chmod_def mkdir_no_parents_def mkdir_parents.simps)
qed

lemma lines_of_line:
  "newline \<notin> set l \<Longrightarrow> lines_of (l @ newline # rest) = l # lines_of rest"
  by (induction l) auto

lemma lines_of_unlines:
  "\<forall>l\<in>set ls. newline \<notin> set l \<Longrightarrow> lines_of (concat (map (\<lambda>l. l @ [newline]) ls)) = ls"
  by (induction ls) (simp_all add: lines_of_line)

lemma summary_line_text: "summary_line = ''Created 13 files and 5 directories''"
  by (simp add: summary_line_def files_to_create_def directories_def digit_def)

lemma script_output_unlines:
  "script_output =
     concat (map (\<lambda>l. l @ [newline]) (map created_line files_to_create @ [[], summary_line, usage_hint]))"
  by (simp add: script_output_def comp_def)

lemma script_lines_no_newline:
  "\<forall>l\<in>set (map created_line files_to_create @ [[], summary_line, usage_hint]). newline \<notin> set l"
  unfolding summary_line_text
  by (simp add: files_to_create_def created_line_def usage_hint_def newline_def)

lemma lines_of_script_output:
  "lines_of script_output = map created_line files_to_create @ [[], summary_line, usage_hint]"
  unfolding script_output_unlines by (rule lines_of_unlines [OF script_lines_no_newline])

lemma run_printed:
  "create_project_structure w = Done w' \<Longrightarrow> printed w w' = script_output"
  by (simp add: printed_def run_stdout)

lemma created_lines_filter:
  "filter (\<lambda>l. take 9 l = ''Created: '') (map created_line files_to_create @ [[], summary_line, usage_hint])
     = map created_line files_to_create"
  unfolding summary_line_text
  by (simp add: files_to_create_def created_line_def usage_hint_def)

lemma run_read_only:
  assumes "fs w = [[] \<mapsto> Dir m]" "\<not> owner_w m"
  shows "create_project_structure w = Raised PermissionError (log_call (CallMkdir ''api'') w)"
  using assms
  by (simp add: create_project_structure_def directories_def Path_mkdir_def Path_def
      mkdir_parents.simps [of "[''api'']"] os_mkdir_def os_stat_def is_dir_def)

lemma run_placeholder: "\<exists>w'. create_project_structure placeholder_cwd = Done w'"
  by (simp add: placeholder_cwd_def create_project_structure_def directories_def files_to_create_def Path_mkdir_def Path_touch_def os_chmod_def touch_and_report_def print_def Path_def os_mkdir_def os_stat_def is_dir_def touch_def os_utime_def os_open_creat_def sys_chmod_def mkdir_no_parents_def mkdir_parents.simps owner_x_def owner_w_def log_call_def)

lemma run_empty_cwd: "\<exists>w'. create_project_structure (empty_cwd 0x1ED) = Done w'"
  by (rule run_empty_ok [of _ "0x1ED"]) (simp_all add: empty_cwd_def owner_w_def owner_x_def)

lemma files_nonempty_aux: "\<forall>p\<in>set (map Path files_to_create). p \<noteq> []"
  unfolding file_paths by simp

lemma files_nonempty: "f \<in> set files_to_create \<Longrightarrow> Path f \<noteq> []"
  using files_nonempty_aux by simp

lemma no_exec_bits: "(0x1B6 AND NOT u) AND 0x49 = (0 :: mode)"
proof -
  have "(0x1B6 AND NOT u) AND 0x49 = (0x1B6 AND 0x49) AND NOT u"
    by (metis and.assoc and.commute)
  also have "\<dots> = 0" by simp
  finally show ?thesis .
qed

lemma emits_Path_mkdir: "emits (Path_mkdir d w) w [CallMkdir d]"
  using Path_mkdir_env [of d w] by (cases "Path_mkdir d w") (simp_all add: emits_def)

lemma emits_touch_and_report:
  "emits (touch_and_report f w) w [CallTouch f, CallPrint (created_line f)]"
proof (cases "Path_touch f w")
  case (Done w1)
  with Path_touch_env [of f w] show ?thesis
    by (simp add: touch_and_report_def print_def emits_def)
next
  case (Raised e w1)
  with Path_touch_env [of f w] show ?thesis
    by (simp add: touch_and_report_def emits_def)
qed

lemma emits_os_chmod: "emits (os_chmod s md w) w [CallChmod s md]"
  using sys_chmod_env [of "Path s" md "log_call (CallChmod s md) w"]
  by (cases "sys_chmod (Path s) md (log_call (CallChmod s md) w)") (simp_all add: emits_def os_chmod_def)

lemma emits_print: "emits (print s w) w [CallPrint s]"
  by (simp add: print_def emits_def)

lemma run_emits: "emits (create_project_structure w) w script_calls"
proof -
  have 1: "emits (for_each Path_mkdir directories w) w (concat (map (\<lambda>d. [CallMkdir d]) directories))"
    by (rule emits_for_each) (rule emits_Path_mkdir)
  have 2: "emits (for_each touch_and_report files_to_create v) v
             (concat (map (\<lambda>f. [CallTouch f, CallPrint (created_line f)]) files_to_create))" for v
    by (rule emits_for_each) (rule emits_touch_and_report)
  have 45: "emits (and_then (print (newline # summary_line) v) (print usage_hint)) v
             ([CallPrint (newline # summary_line)] @ [CallPrint usage_hint])" for v
    by (rule emits_and_then) (rule emits_print)+
  have 345: "emits (and_then (os_chmod ''scripts/deploy.sh'' 0x1ED v)
                (\<lambda>w. and_then (print (newline # summary_line) w) (print usage_hint))) v
             ([CallChmod ''scripts/deploy.sh'' 0x1ED] @
              [CallPrint (newline # summary_line)] @ [CallPrint usage_hint])" for v
    by (rule emits_and_then [OF emits_os_chmod]) (rule 45)
  have 2345: "emits (and_then (for_each touch_and_report files_to_create v)
                (\<lambda>w. and_then (os_chmod ''scripts/deploy.sh'' 0x1ED w)
                (\<lambda>w. and_then (print (newline # summary_line) w) (print usage_hint)))) v
             (concat (map (\<lambda>f. [CallTouch f, CallPrint (created_line f)]) files_to_create) @
              [CallChmod ''scripts/deploy.sh'' 0x1ED] @
              [CallPrint (newline # summary_line)] @ [CallPrint usage_hint])" for v
    by (rule emits_and_then [OF 2]) (rule 345)
  have "emits (create_project_structure w) w
          (concat (map (\<lambda>d. [CallMkdir d]) directories) @
           concat (map (\<lambda>f. [CallTouch f, CallPrint (created_line f)]) files_to_create) @
           [CallChmod ''scripts/deploy.sh'' 0x1ED] @
           [CallPrint (newline # summary_line)] @ [CallPrint usage_hint])"
    unfolding create_project_structure_def by (rule emits_and_then [OF 1]) (rule 2345)
  moreover have "concat (map (\<lambda>d. [CallMkdir d]) directories) = map CallMkdir directories"
    by (induction directories) simp_all
  ultimately show ?thesis by (simp add: script_calls_def)
qed

lemma touch_loop_Raised_iff:
  "for_each touch_and_report fl w = Raised e w' \<longleftrightarrow>
   (\<exists>ys f zs w2. fl = ys @ f # zs \<and> for_each touch_and_report ys w = Done w2 \<and>
      Path_touch f w2 = Raised e w')"
  by (simp add: for_each_Raised_iff touch_and_report_Raised)

lemma first_failure_alt:
  "first_failure w e w' \<longleftrightarrow>
     for_each Path_mkdir directories w = Raised e w' \<or>
     (\<exists>w1. for_each Path_mkdir directories w = Done w1 \<and>
           for_each touch_and_report files_to_create w1 = Raised e w') \<or>
     (\<exists>w1 w2. for_each Path_mkdir directories w = Done w1 \<and>
           for_each touch_and_report files_to_create w1 = Done w2 \<and>
           os_chmod ''scripts/deploy.sh'' 0x1ED w2 = Raised e w')"
proof -
  have 1: "(\<exists>ys d zs w1.
         directories = ys @ d # zs \<and> for_each Path_mkdir ys w = Done w1 \<and>
         Path_mkdir d w1 = Raised e w') \<longleftrightarrow> for_each Path_mkdir directories w = Raised e w'"
    by (simp add: for_each_Raised_iff)
  have 2: "(\<exists>w1 ys f zs w2.
         for_each Path_mkdir directories w = Done w1 \<and>
         files_to_create = ys @ f # zs \<and> for_each touch_and_report ys w1 = Done w2 \<and>
         Path_touch f w2 = Raised e w') \<longleftrightarrow>
       (\<exists>w1. for_each Path_mkdir directories w = Done w1 \<and>
           for_each touch_and_report files_to_create w1 = Raised e w')"
    unfolding touch_loop_Raised_iff by blast
  show ?thesis unfolding first_failure_def 1 2 ..
qed

lemma run_Raised_iff:
  "create_project_structure w = Raised e w' \<longleftrightarrow> first_failure w e w'"
proof (cases "for_each Path_mkdir directories w")
  case r1: (Raised e1 w1)
  then show ?thesis
    by (auto simp: create_project_structure_def first_failure_alt)
next
  case d1: (Done w1)
  show ?thesis
  proof (cases "for_each touch_and_report files_to_create w1")
    case r2: (Raised e2 w2)
    with d1 show ?thesis
      by (auto simp: create_project_structure_def first_failure_alt)
  next
    case d2: (Done w2)
    show ?thesis
    proof (cases "os_chmod ''scripts/deploy.sh'' 0x1ED w2")
      case r3: (Raised e3 w3)
      with d1 d2 show ?thesis
        by (auto simp: create_project_structure_def first_failure_alt)
    next
      case d3: (Done w3)
      with d1 d2 show ?thesis
        by (auto simp: create_project_structure_def first_failure_alt print_def)
    qed
  qed
qed

lemma touch_loop_stdout_Raised:
  assumes "for_each touch_and_report fl w = Raised e w'"
  shows "\<exists>ys. prefix ys fl \<and> stdout w' = stdout w @ concat (map (\<lambda>f. created_line f @ [newline]) ys)"
proof -
  from assms obtain ys f zs w2 where fl: "fl = ys @ f # zs"
    and d: "for_each touch_and_report ys w = Done w2" and r: "Path_touch f w2 = Raised e w'"
    unfolding touch_loop_Raised_iff by blast
  from Path_touch_env [of f w2] r have "stdout w' = stdout w2" by simp
  with touch_loop_stdout [OF d]
  have "stdout w' = stdout w @ concat (map (\<lambda>f. created_line f @ [newline]) ys)" by simp
  moreover have "prefix ys fl" using fl by simp
  ultimately show ?thesis by blast
qed

lemma mkdir_loop_calls:
  "for_each Path_mkdir ds w = Done w' \<Longrightarrow> calls w' = calls w @ map CallMkdir ds"
proof -
  assume d: "for_each Path_mkdir ds w = Done w'"
  have "emits (for_each Path_mkdir ds w) w (concat (map (\<lambda>d. [CallMkdir d]) ds))"
    by (rule emits_for_each) (rule emits_Path_mkdir)
  moreover have "concat (map (\<lambda>d. [CallMkdir d]) ds) = map CallMkdir ds"
    by (induction ds) simp_all
  ultimately show ?thesis using d by (simp add: emits_def)
qed

lemma touch_loop_calls:
  "for_each touch_and_report fl w = Done w' \<Longrightarrow>
   calls w' = calls w @ concat (map (\<lambda>f. [CallTouch f, CallPrint (created_line f)]) fl)"
proof -
  assume d: "for_each touch_and_report fl w = Done w'"
  have "emits (for_each touch_and_report fl w) w
          (concat (map (\<lambda>f. [CallTouch f, CallPrint (created_line f)]) fl))"
    by (rule emits_for_each) (rule emits_touch_and_report)
  with d show ?thesis by (simp add: emits_def)
qed

text \<open>the state after the first loop, whether it completed or raised\<close>

lemma after_mkdir_loop:
  "(\<forall>f\<in>set files_to_create.
      fs (world_of (for_each Path_mkdir directories w)) (Path f) = fs w (Path f)) \<and>
   stdout (world_of (for_each Path_mkdir directories w)) = stdout w \<and>
   umask (world_of (for_each Path_mkdir directories w)) = umask w"
  using mkdir_loop_rel [of directories w] files_not_dirs
  by (simp add: grows_within_def)

lemma after_touch_loop:
  "\<forall>q n. fs w q = Some n \<longrightarrow> fs (world_of (for_each touch_and_report files_to_create w)) q = Some n"
proof (intro allI impI)
  fix q n assume "fs w q = Some n"
  moreover from touch_loop_rel [of files_to_create w]
  have "fs w \<subseteq>\<^sub>m fs (world_of (for_each touch_and_report files_to_create w))"
    by (simp add: grows_within_def)
  ultimately show "fs (world_of (for_each touch_and_report files_to_create w)) q = Some n"
    by (metis domI map_le_def)
qed

lemma os_chmod_Raised:
  "os_chmod s md w = Raised e w' \<Longrightarrow> fs w' = fs w \<and> stdout w' = stdout w"
  unfolding os_chmod_def using sys_chmod_Raised [of "Path s" md "log_call (CallChmod s md) w" e w']
  by auto

lemma os_chmod_Done:
  assumes "os_chmod s md w = Done w'"
  shows "(\<exists>n. os_stat (Path s) w = Inr n \<and> fs w' = (fs w)(Path s \<mapsto> set_perm n (md AND 0xFFF))) \<and>
         stdout w' = stdout w \<and> calls w' = calls w @ [CallChmod s md]"
  using sys_chmod_Done [of "Path s" md "log_call (CallChmod s md) w" w'] assms
  by (auto simp: os_chmod_def)

section \<open>The properties of the specification\<close>

text \<open>
  C1. A run started in an empty working directory, when it completes, leaves each of
  the five directories as a directory and each of the thirteen files as an empty
  regular file, and the line before the usage hint, the last but one it prints, is
  \<^verbatim>\<open>Created 13 files and 5 directories\<close>. It does complete when the working directory
  grants its owner write and search permission and the umask masks neither of them.
\<close>

theorem scaffold_clean_directory:
  assumes "fs w = [[] \<mapsto> Dir m]"
  shows "(\<forall>w'. create_project_structure w = Done w' \<longrightarrow>
            (\<forall>d\<in>set directories. \<exists>dm. os_stat (Path d) w' = Inr (Dir dm)) \<and>
            (\<forall>f\<in>set files_to_create. \<exists>fm. os_stat (Path f) w' = Inr (File [] fm)) \<and>
            (\<exists>ls. lines_of (printed w w') =
                    ls @ [''Created 13 files and 5 directories'', usage_hint])) \<and>
         (owner_w m \<and> owner_x m \<and> \<not> bit (umask w) 6 \<and> \<not> bit (umask w) 7 \<longrightarrow>
            (\<exists>w'. create_project_structure w = Done w'))"
proof (intro conjI allI impI)
  fix w' assume run: "create_project_structure w = Done w'"
  from run_resolves [OF run]
  show "\<forall>d\<in>set directories. \<exists>dm. os_stat (Path d) w' = Inr (Dir dm)" by blast
  show "\<forall>f\<in>set files_to_create. \<exists>fm. os_stat (Path f) w' = Inr (File [] fm)"
  proof
    fix f assume f: "f \<in> set files_to_create"
    from assms files_nonempty [OF f] have "fs w (Path f) = None" by simp
    from run_new_file [OF run f this] obtain fm where new: "fs w' (Path f) = Some (File [] fm)"
      by blast
    from run_resolves [OF run] f obtain n where n: "os_stat (Path f) w' = Inr n" by blast
    from os_stat_Some [OF n] new have "n = File [] fm" by simp
    with n show "\<exists>fm. os_stat (Path f) w' = Inr (File [] fm)" by blast
  qed
  have "lines_of (printed w w') =
          (map created_line files_to_create @ [[]]) @
          [''Created 13 files and 5 directories'', usage_hint]"
    by (simp add: run_printed [OF run] lines_of_script_output summary_line_text)
  then show "\<exists>ls. lines_of (printed w w') =
                ls @ [''Created 13 files and 5 directories'', usage_hint]" by blast
next
  assume "owner_w m \<and> owner_x m \<and> \<not> bit (umask w) 6 \<and> \<not> bit (umask w) 7"
  with run_empty_ok [OF assms] show "\<exists>w'. create_project_structure w = Done w'" by blast
qed

theorem scaffold_clean_directory_witness:
  "\<exists>w'. create_project_structure (empty_cwd 0x1ED) = Done w' \<and>
        (\<exists>dm. os_stat (Path ''.github/workflows'') w' = Inr (Dir dm)) \<and>
        (\<exists>fm. os_stat (Path ''Makefile'') w' = Inr (File [] fm))"
proof -
  have e: "fs (empty_cwd 0x1ED) = [[] \<mapsto> Dir 0x1ED]" by (simp add: empty_cwd_def)
  have p: "owner_w (0x1ED :: mode) \<and> owner_x (0x1ED :: mode) \<and>
      \<not> bit (umask (empty_cwd 0x1ED)) 6 \<and> \<not> bit (umask (empty_cwd 0x1ED)) 7"
    by (simp add: empty_cwd_def owner_w_def owner_x_def)
  from scaffold_clean_directory [OF e] p obtain w' where
    run: "create_project_structure (empty_cwd 0x1ED) = Done w'" by blast
  from scaffold_clean_directory [OF e] run
  have "(\<forall>d\<in>set directories. \<exists>dm. os_stat (Path d) w' = Inr (Dir dm)) \<and>
        (\<forall>f\<in>set files_to_create. \<exists>fm. os_stat (Path f) w' = Inr (File [] fm))" by blast
  then have "(\<exists>dm. os_stat (Path ''.github/workflows'') w' = Inr (Dir dm)) \<and>
        (\<exists>fm. os_stat (Path ''Makefile'') w' = Inr (File [] fm))"
    by (simp add: directories_def files_to_create_def)
  with run show ?thesis by blast
qed

text \<open>
  C2. A second run on the world a completed first run left also completes; it leaves
  the file system as it found it, so every file keeps its contents, and it prints the
  text the first run printed, with the same summary line.
\<close>

theorem rerun_idempotent:
  assumes "create_project_structure w = Done w1"
  shows "\<exists>w2. create_project_structure w1 = Done w2 \<and>
           fs w2 = fs w1 \<and>
           (\<forall>q c m. fs w1 q = Some (File c m) \<longrightarrow> (\<exists>m'. fs w2 q = Some (File c m'))) \<and>
           printed w1 w2 = printed w w1 \<and>
           (\<exists>ls. lines_of (printed w1 w2) =
                   ls @ [''Created 13 files and 5 directories'', usage_hint])"
proof -
  from run_resolves [OF assms] run_deploy [OF assms]
  have "\<exists>w2. create_project_structure w1 = Done w2 \<and> fs w2 = fs w1"
    by (intro rerun) blast+
  then obtain w2 where run2: "create_project_structure w1 = Done w2" and same: "fs w2 = fs w1"
    by blast
  have "lines_of (printed w1 w2) =
          (map created_line files_to_create @ [[]]) @
          [''Created 13 files and 5 directories'', usage_hint]"
    by (simp add: run_printed [OF run2] lines_of_script_output summary_line_text)
  then have "\<exists>ls. lines_of (printed w1 w2) =
                ls @ [''Created 13 files and 5 directories'', usage_hint]" by blast
  with run2 same run_printed [OF assms] run_printed [OF run2] show ?thesis by simp
qed

theorem rerun_idempotent_witness:
  "\<exists>w1 w2. create_project_structure (empty_cwd 0x1ED) = Done w1 \<and>
           create_project_structure w1 = Done w2 \<and> fs w2 = fs w1 \<and>
           printed w1 w2 = printed (empty_cwd 0x1ED) w1"
proof -
  from run_empty_cwd obtain w1 where 1: "create_project_structure (empty_cwd 0x1ED) = Done w1"
    by blast
  from rerun_idempotent [OF 1] 1 show ?thesis by blast
qed

text \<open>
  C3. A completed run leaves every file of the list that was a regular file before it
  with the contents it had, and makes every path of the list that was missing an empty
  regular file.
\<close>

theorem existing_files_untouched:
  assumes "create_project_structure w = Done w'"
  shows "(\<forall>f\<in>set files_to_create. \<forall>c m. fs w (Path f) = Some (File c m) \<longrightarrow>
            (\<exists>m'. os_stat (Path f) w' = Inr (File c m'))) \<and>
         (\<forall>f\<in>set files_to_create. fs w (Path f) = None \<longrightarrow>
            (\<exists>m'. os_stat (Path f) w' = Inr (File [] m')))"
proof (intro conjI ballI allI impI)
  fix f c m assume f: "f \<in> set files_to_create" and old: "fs w (Path f) = Some (File c m)"
  from run_fs_le [OF assms] old obtain n' where n': "fs w' (Path f) = Some n'"
    and le: "node_le (File c m) n'" unfolding fs_le_def by blast
  from node_le_File [OF le] obtain m' where m': "n' = File c m'" by blast
  from run_resolves [OF assms] f obtain n where n: "os_stat (Path f) w' = Inr n" by blast
  from os_stat_Some [OF n] n' m' have "n = File c m'" by simp
  with n show "\<exists>m'. os_stat (Path f) w' = Inr (File c m')" by blast
next
  fix f assume f: "f \<in> set files_to_create" and none: "fs w (Path f) = None"
  from run_new_file [OF assms f none] obtain fm where new: "fs w' (Path f) = Some (File [] fm)"
    by blast
  from run_resolves [OF assms] f obtain n where n: "os_stat (Path f) w' = Inr n" by blast
  from os_stat_Some [OF n] new have "n = File [] fm" by simp
  with n show "\<exists>m'. os_stat (Path f) w' = Inr (File [] m')" by blast
qed

theorem existing_files_untouched_witness:
  "\<exists>w'. create_project_structure placeholder_cwd = Done w' \<and>
        (\<exists>m'. os_stat (Path ''k8s/02-mongodb.yaml'') w' = Inr (File ''placeholder'' m')) \<and>
        (\<exists>m'. os_stat (Path ''k8s/03-api-service.yaml'') w' = Inr (File [] m'))"
proof -
  from run_placeholder obtain w' where run: "create_project_structure placeholder_cwd = Done w'"
    by blast
  have old: "fs placeholder_cwd (Path ''k8s/02-mongodb.yaml'') = Some (File ''placeholder'' 0x1A4)"
    by (simp add: placeholder_cwd_def Path_def)
  have none: "fs placeholder_cwd (Path ''k8s/03-api-service.yaml'') = None"
    by (simp add: placeholder_cwd_def Path_def)
  have in1: "''k8s/02-mongodb.yaml'' \<in> set files_to_create"
    and in2: "''k8s/03-api-service.yaml'' \<in> set files_to_create"
    by (simp_all add: files_to_create_def)
  from existing_files_untouched [OF run] in1 old
  have "\<exists>m'. os_stat (Path ''k8s/02-mongodb.yaml'') w' = Inr (File ''placeholder'' m')" by blast
  moreover from existing_files_untouched [OF run] in2 none
  have "\<exists>m'. os_stat (Path ''k8s/03-api-service.yaml'') w' = Inr (File [] m')" by blast
  ultimately show ?thesis using run by blast
qed

text \<open>
  C4. After every completed run \<^verbatim>\<open>scripts/deploy.sh\<close> resolves to a node whose permission
  bits are exactly 0755 (\<open>0x1ED\<close>), whatever the world before the run.
\<close>

theorem deploy_mode_755:
  assumes "create_project_structure w = Done w'"
  shows "\<exists>n. os_stat (Path ''scripts/deploy.sh'') w' = Inr n \<and> perm n = 0x1ED"
  using assms by (rule run_deploy)

theorem deploy_mode_755_witness:
  "\<exists>w' n. create_project_structure placeholder_cwd = Done w' \<and>
          os_stat (Path ''scripts/deploy.sh'') w' = Inr n \<and> perm n = 0x1ED"
proof -
  from run_placeholder obtain w' where run: "create_project_structure placeholder_cwd = Done w'"
    by blast
  from deploy_mode_755 [OF run] run show ?thesis by blast
qed

text \<open>
  C5. A completed run changes no node that existed before it other than
  \<^verbatim>\<open>scripts/deploy.sh\<close>, and every other file of the list that was missing is created
  with the default mode \<^verbatim>\<open>0o666 & ~umask\<close>, which has no execute bit (\<open>0x49\<close> is 0111).
\<close>

theorem chmod_only_deploy:
  assumes "create_project_structure w = Done w'"
  shows "(\<forall>q n. q \<noteq> Path ''scripts/deploy.sh'' \<longrightarrow> fs w q = Some n \<longrightarrow> fs w' q = Some n) \<and>
         (\<forall>f\<in>set files_to_create. f \<noteq> ''scripts/deploy.sh'' \<longrightarrow> fs w (Path f) = None \<longrightarrow>
            fs w' (Path f) = Some (File [] (0x1B6 AND NOT (umask w))) \<and>
            (0x1B6 AND NOT (umask w)) AND 0x49 = 0)"
proof (intro conjI ballI allI impI)
  fix q n assume "q \<noteq> Path ''scripts/deploy.sh''" "fs w q = Some n"
  with run_frame [OF assms] show "fs w' q = Some n" by blast
next
  fix f assume f: "f \<in> set files_to_create" and "f \<noteq> ''scripts/deploy.sh''"
    and none: "fs w (Path f) = None"
  with run_new_file [OF assms f none]
  show "fs w' (Path f) = Some (File [] (0x1B6 AND NOT (umask w)))" by simp
next
  show "(0x1B6 AND NOT (umask w)) AND 0x49 = 0" by (rule no_exec_bits)
qed

theorem chmod_only_deploy_witness:
  "\<exists>w'. create_project_structure placeholder_cwd = Done w' \<and>
        fs w' (Path ''k8s/02-mongodb.yaml'') = Some (File ''placeholder'' 0x1A4) \<and>
        fs w' (Path ''Makefile'') = Some (File [] 0x1A4)"
proof -
  from run_placeholder obtain w' where run: "create_project_structure placeholder_cwd = Done w'"
    by blast
  have old: "fs placeholder_cwd (Path ''k8s/02-mongodb.yaml'') = Some (File ''placeholder'' 0x1A4)"
    and neq: "Path ''k8s/02-mongodb.yaml'' \<noteq> Path ''scripts/deploy.sh''"
    by (simp_all add: placeholder_cwd_def Path_def)
  have none: "fs placeholder_cwd (Path ''Makefile'') = None"
    and mem: "''Makefile'' \<in> set files_to_create" and nd: "''Makefile'' \<noteq> ''scripts/deploy.sh''"
    by (simp_all add: placeholder_cwd_def Path_def files_to_create_def)
  have u: "0x1B6 AND NOT (umask placeholder_cwd) = 0x1A4"
    by (simp add: placeholder_cwd_def)
  from chmod_only_deploy [OF run] neq old
  have "fs w' (Path ''k8s/02-mongodb.yaml'') = Some (File ''placeholder'' 0x1A4)" by blast
  moreover from chmod_only_deploy [OF run] mem nd none u
  have "fs w' (Path ''Makefile'') = Some (File [] 0x1A4)" by auto
  ultimately show ?thesis using run by blast
qed

text \<open>
  C6. A run that completes goes through three worlds in this order. After the first
  loop all five directories are directories, no path of the file list has changed and
  nothing has been printed. After the second loop every file of the list resolves, each
  has been reported, and no node that existed has changed, so the mode of
  \<^verbatim>\<open>scripts/deploy.sh\<close> has not been set yet. The \<^verbatim>\<open>chmod\<close> then changes that one node and
  prints nothing, and only after it are the summary and the usage hint printed, the last
  text of the run. A run that raises stopped in one of these phases: in the first with no
  file path changed and nothing printed, in the second with no existing node changed and
  only reports of files printed, or in the \<^verbatim>\<open>chmod\<close> with no summary printed. The calls
  logged are the fixed sequence of the script, or an initial part of it. A \<^verbatim>\<open>mkdir\<close> of a
  path that is a directory already completes and changes nothing, and a \<^verbatim>\<open>mkdir\<close> that
  completes leaves the path, hence its parents, a directory.
\<close>

theorem phases_in_order:
  "(\<forall>w'. create_project_structure w = Done w' \<longrightarrow>
      (\<exists>w1 w2 w3.
         for_each Path_mkdir directories w = Done w1 \<and>
         (\<forall>d\<in>set directories. is_dir (Path d) w1) \<and>
         (\<forall>f\<in>set files_to_create. fs w1 (Path f) = fs w (Path f)) \<and>
         stdout w1 = stdout w \<and>
         calls w1 = calls w @ map CallMkdir directories \<and>
         for_each touch_and_report files_to_create w1 = Done w2 \<and>
         (\<forall>f\<in>set files_to_create. \<exists>n. os_stat (Path f) w2 = Inr n) \<and>
         (\<forall>q n. fs w1 q = Some n \<longrightarrow> fs w2 q = Some n) \<and>
         stdout w2 = stdout w1 @ concat (map (\<lambda>f. created_line f @ [newline]) files_to_create) \<and>
         calls w2 =
           calls w1 @ concat (map (\<lambda>f. [CallTouch f, CallPrint (created_line f)]) files_to_create) \<and>
         os_chmod ''scripts/deploy.sh'' 0x1ED w2 = Done w3 \<and>
         (\<exists>n. os_stat (Path ''scripts/deploy.sh'') w2 = Inr n \<and>
              fs w3 = (fs w2)(Path ''scripts/deploy.sh'' \<mapsto> set_perm n 0x1ED)) \<and>
         stdout w3 = stdout w2 \<and>
         calls w3 = calls w2 @ [CallChmod ''scripts/deploy.sh'' 0x1ED] \<and>
         fs w' = fs w3 \<and>
         stdout w' = stdout w3 @ [newline] @ summary_line @ [newline] @ usage_hint @ [newline] \<and>
         calls w' = calls w3 @ [CallPrint (newline # summary_line), CallPrint usage_hint])) \<and>
   (\<forall>e w'. create_project_structure w = Raised e w' \<longrightarrow>
      (for_each Path_mkdir directories w = Raised e w' \<and>
         (\<forall>f\<in>set files_to_create. fs w' (Path f) = fs w (Path f)) \<and> stdout w' = stdout w) \<or>
      (\<exists>w1. for_each Path_mkdir directories w = Done w1 \<and>
         for_each touch_and_report files_to_create w1 = Raised e w' \<and>
         (\<forall>q n. fs w1 q = Some n \<longrightarrow> fs w' q = Some n) \<and>
         (\<exists>ys. prefix ys files_to_create \<and>
               stdout w' = stdout w1 @ concat (map (\<lambda>f. created_line f @ [newline]) ys))) \<or>
      (\<exists>w1 w2. for_each Path_mkdir directories w = Done w1 \<and>
         for_each touch_and_report files_to_create w1 = Done w2 \<and>
         os_chmod ''scripts/deploy.sh'' 0x1ED w2 = Raised e w' \<and>
         fs w' = fs w2 \<and> stdout w' = stdout w2)) \<and>
   (\<forall>e w'. create_project_structure w = Raised e w' \<longrightarrow>
      (\<exists>es. calls w' = calls w @ es \<and> prefix es script_calls)) \<and>
   (\<forall>w'. create_project_structure w = Done w' \<longrightarrow> calls w' = calls w @ script_calls) \<and>
   (\<forall>d m. os_stat (Path d) w = Inr (Dir m) \<longrightarrow>
      Path_mkdir d w = Done (log_call (CallMkdir d) w)) \<and>
   (\<forall>d w'. Path_mkdir d w = Done w' \<longrightarrow> is_dir (Path d) w')"
proof (intro conjI allI impI)
  fix w' assume run: "create_project_structure w = Done w'"
  from run obtain w1 where 1: "for_each Path_mkdir directories w = Done w1"
    by (cases "for_each Path_mkdir directories w") (auto simp: create_project_structure_def)
  with run obtain w2 where 2: "for_each touch_and_report files_to_create w1 = Done w2"
    by (cases "for_each touch_and_report files_to_create w1") (auto simp: create_project_structure_def)
  with run 1 obtain w3 where 3: "os_chmod ''scripts/deploy.sh'' 0x1ED w2 = Done w3"
    by (cases "os_chmod ''scripts/deploy.sh'' 0x1ED w2") (auto simp: create_project_structure_def)
  from run 1 2 3 have 4: "and_then (print (newline # summary_line) w3) (print usage_hint) = Done w'"
    by (simp add: create_project_structure_def)
  then have p: "fs w' = fs w3 \<and>
      stdout w' = stdout w3 @ [newline] @ summary_line @ [newline] @ usage_hint @ [newline] \<and>
      calls w' = calls w3 @ [CallPrint (newline # summary_line), CallPrint usage_hint]"
    by (auto simp: print_def)
  have a1: "\<forall>d\<in>set directories. is_dir (Path d) w1"
    using mkdir_loop_dirs [OF 1] by (auto simp: is_dir_def)
  from after_mkdir_loop [of w] 1
  have a2: "(\<forall>f\<in>set files_to_create. fs w1 (Path f) = fs w (Path f)) \<and> stdout w1 = stdout w"
    by simp
  note a3 = mkdir_loop_calls [OF 1]
  note b1 = touch_loop_files [OF 2]
  from after_touch_loop [of w1] 2 have b2: "\<forall>q n. fs w1 q = Some n \<longrightarrow> fs w2 q = Some n"
    by simp
  note b3 = touch_loop_stdout [OF 2]
  note b4 = touch_loop_calls [OF 2]
  from os_chmod_Done [OF 3]
  have c: "(\<exists>n. os_stat (Path ''scripts/deploy.sh'') w2 = Inr n \<and>
              fs w3 = (fs w2)(Path ''scripts/deploy.sh'' \<mapsto> set_perm n 0x1ED)) \<and>
         stdout w3 = stdout w2 \<and> calls w3 = calls w2 @ [CallChmod ''scripts/deploy.sh'' 0x1ED]"
    by simp
  from 1 2 3 a1 a2 a3 b1 b2 b3 b4 c p
  show "\<exists>w1 w2 w3.
         for_each Path_mkdir directories w = Done w1 \<and>
         (\<forall>d\<in>set directories. is_dir (Path d) w1) \<and>
         (\<forall>f\<in>set files_to_create. fs w1 (Path f) = fs w (Path f)) \<and>
         stdout w1 = stdout w \<and>
         calls w1 = calls w @ map CallMkdir directories \<and>
         for_each touch_and_report files_to_create w1 = Done w2 \<and>
         (\<forall>f\<in>set files_to_create. \<exists>n. os_stat (Path f) w2 = Inr n) \<and>
         (\<forall>q n. fs w1 q = Some n \<longrightarrow> fs w2 q = Some n) \<and>
         stdout w2 = stdout w1 @ concat (map (\<lambda>f. created_line f @ [newline]) files_to_create) \<and>
         calls w2 =
           calls w1 @ concat (map (\<lambda>f. [CallTouch f, CallPrint (created_line f)]) files_to_create) \<and>
         os_chmod ''scripts/deploy.sh'' 0x1ED w2 = Done w3 \<and>
         (\<exists>n. os_stat (Path ''scripts/deploy.sh'') w2 = Inr n \<and>
              fs w3 = (fs w2)(Path ''scripts/deploy.sh'' \<mapsto> set_perm n 0x1ED)) \<and>
         stdout w3 = stdout w2 \<and>
         calls w3 = calls w2 @ [CallChmod ''scripts/deploy.sh'' 0x1ED] \<and>
         fs w' = fs w3 \<and>
         stdout w' = stdout w3 @ [newline] @ summary_line @ [newline] @ usage_hint @ [newline] \<and>
         calls w' = calls w3 @ [CallPrint (newline # summary_line), CallPrint usage_hint]"
    by blast
next
  fix e w' assume run: "create_project_structure w = Raised e w'"
  show "(for_each Path_mkdir directories w = Raised e w' \<and>
         (\<forall>f\<in>set files_to_create. fs w' (Path f) = fs w (Path f)) \<and> stdout w' = stdout w) \<or>
      (\<exists>w1. for_each Path_mkdir directories w = Done w1 \<and>
         for_each touch_and_report files_to_create w1 = Raised e w' \<and>
         (\<forall>q n. fs w1 q = Some n \<longrightarrow> fs w' q = Some n) \<and>
         (\<exists>ys. prefix ys files_to_create \<and>
               stdout w' = stdout w1 @ concat (map (\<lambda>f. created_line f @ [newline]) ys))) \<or>
      (\<exists>w1 w2. for_each Path_mkdir directories w = Done w1 \<and>
         for_each touch_and_report files_to_create w1 = Done w2 \<and>
         os_chmod ''scripts/deploy.sh'' 0x1ED w2 = Raised e w' \<and>
         fs w' = fs w2 \<and> stdout w' = stdout w2)"
  proof (cases "for_each Path_mkdir directories w")
    case r1: (Raised e1 w1)
    with run have "for_each Path_mkdir directories w = Raised e w'"
      by (simp add: create_project_structure_def)
    with after_mkdir_loop [of w] show ?thesis by simp
  next
    case d1: (Done w1)
    show ?thesis
    proof (cases "for_each touch_and_report files_to_create w1")
      case r2: (Raised e2 w2)
      with run d1 have r: "for_each touch_and_report files_to_create w1 = Raised e w'"
        by (simp add: create_project_structure_def)
      from after_touch_loop [of w1] r have "\<forall>q n. fs w1 q = Some n \<longrightarrow> fs w' q = Some n"
        by simp
      with d1 r touch_loop_stdout_Raised [OF r] show ?thesis by blast
    next
      case d2: (Done w2)
      show ?thesis
      proof (cases "os_chmod ''scripts/deploy.sh'' 0x1ED w2")
        case r3: (Raised e3 w3)
        with run d1 d2 have r: "os_chmod ''scripts/deploy.sh'' 0x1ED w2 = Raised e w'"
          by (simp add: create_project_structure_def)
        with d1 d2 os_chmod_Raised [OF r] show ?thesis by blast
      next
        case d3: (Done w3)
        with run d1 d2 show ?thesis
          by (simp add: create_project_structure_def print_def)
      qed
    qed
  qed
next
  fix e w' assume "create_project_structure w = Raised e w'"
  with run_emits [of w] show "\<exists>es. calls w' = calls w @ es \<and> prefix es script_calls"
    by (simp add: emits_def)
next
  fix w' assume "create_project_structure w = Done w'"
  with run_emits [of w] show "calls w' = calls w @ script_calls" by (simp add: emits_def)
next
  fix d m assume "os_stat (Path d) w = Inr (Dir m)"
  then show "Path_mkdir d w = Done (log_call (CallMkdir d) w)" by (rule Path_mkdir_exists)
next
  fix d w' assume "Path_mkdir d w = Done w'"
  from Path_mkdir_Done [OF this] show "is_dir (Path d) w'" by (auto simp: is_dir_def)
qed

theorem phases_in_order_witness:
  "(\<exists>w' w1 w2 w3.
      create_project_structure (empty_cwd 0x1ED) = Done w' \<and>
      for_each Path_mkdir directories (empty_cwd 0x1ED) = Done w1 \<and>
      is_dir (Path ''.github/workflows'') w1 \<and>
      fs w1 (Path ''api/Dockerfile'') = None \<and>
      stdout w1 = [] \<and>
      for_each touch_and_report files_to_create w1 = Done w2 \<and>
      (\<exists>n. os_stat (Path ''api/Dockerfile'') w2 = Inr n) \<and>
      os_chmod ''scripts/deploy.sh'' 0x1ED w2 = Done w3 \<and>
      stdout w3 = stdout w2 \<and>
      stdout w' = stdout w3 @ [newline] @ summary_line @ [newline] @ usage_hint @ [newline] \<and>
      calls w' = script_calls) \<and>
   (\<exists>w' es. create_project_structure (empty_cwd 0x16D) = Raised PermissionError w' \<and>
      calls w' = es \<and> prefix es script_calls) \<and>
   Path_mkdir ''k8s'' placeholder_cwd = Done (log_call (CallMkdir ''k8s'') placeholder_cwd) \<and>
   is_dir (Path ''k8s'') (log_call (CallMkdir ''k8s'') placeholder_cwd)"
proof -
  from run_empty_cwd obtain w' where run: "create_project_structure (empty_cwd 0x1ED) = Done w'"
    by blast
  have in_d: "''.github/workflows'' \<in> set directories"
    and in_f: "''api/Dockerfile'' \<in> set files_to_create"
    by (simp_all add: directories_def files_to_create_def)
  have none: "fs (empty_cwd 0x1ED) (Path ''api/Dockerfile'') = None"
    and out: "stdout (empty_cwd 0x1ED) = []" and log: "calls (empty_cwd 0x1ED) = []"
    by (simp_all add: empty_cwd_def Path_def)
  from phases_in_order [of "empty_cwd 0x1ED"] run obtain w1 w2 w3 where
    1: "for_each Path_mkdir directories (empty_cwd 0x1ED) = Done w1"
    and a1: "\<forall>d\<in>set directories. is_dir (Path d) w1"
    and a2: "\<forall>f\<in>set files_to_create. fs w1 (Path f) = fs (empty_cwd 0x1ED) (Path f)"
    and a3: "stdout w1 = stdout (empty_cwd 0x1ED)"
    and 2: "for_each touch_and_report files_to_create w1 = Done w2"
    and b1: "\<forall>f\<in>set files_to_create. \<exists>n. os_stat (Path f) w2 = Inr n"
    and 3: "os_chmod ''scripts/deploy.sh'' 0x1ED w2 = Done w3"
    and c: "stdout w3 = stdout w2"
    and p: "stdout w' = stdout w3 @ [newline] @ summary_line @ [newline] @ usage_hint @ [newline]"
    by blast
  from phases_in_order [of "empty_cwd 0x1ED"] run log have l: "calls w' = script_calls"
    by simp
  from a1 in_d have "is_dir (Path ''.github/workflows'') w1" by blast
  moreover from a2 in_f none have "fs w1 (Path ''api/Dockerfile'') = None" by simp
  moreover from a3 out have "stdout w1 = []" by simp
  moreover from b1 in_f have "\<exists>n. os_stat (Path ''api/Dockerfile'') w2 = Inr n" by blast
  ultimately have done_part: "\<exists>w' w1 w2 w3.
      create_project_structure (empty_cwd 0x1ED) = Done w' \<and>
      for_each Path_mkdir directories (empty_cwd 0x1ED) = Done w1 \<and>
      is_dir (Path ''.github/workflows'') w1 \<and>
      fs w1 (Path ''api/Dockerfile'') = None \<and>
      stdout w1 = [] \<and>
      for_each touch_and_report files_to_create w1 = Done w2 \<and>
      (\<exists>n. os_stat (Path ''api/Dockerfile'') w2 = Inr n) \<and>
      os_chmod ''scripts/deploy.sh'' 0x1ED w2 = Done w3 \<and>
      stdout w3 = stdout w2 \<and>
      stdout w' = stdout w3 @ [newline] @ summary_line @ [newline] @ usage_hint @ [newline] \<and>
      calls w' = script_calls"
    using run 1 2 3 c p l by blast
  have e: "fs (empty_cwd 0x16D) = [[] \<mapsto> Dir 0x16D]" by (simp add: empty_cwd_def)
  have ro: "\<not> owner_w (0x16D :: mode)" by (simp add: owner_w_def)
  from run_read_only [OF e ro] obtain v where
    r: "create_project_structure (empty_cwd 0x16D) = Raised PermissionError v" by blast
  from phases_in_order [of "empty_cwd 0x16D"] r
  have "\<exists>es. calls v = calls (empty_cwd 0x16D) @ es \<and> prefix es script_calls" by blast
  then have "\<exists>es. calls v = es \<and> prefix es script_calls" by (simp add: empty_cwd_def)
  with r have raised_part: "\<exists>w' es. create_project_structure (empty_cwd 0x16D) = Raised PermissionError w' \<and>
      calls w' = es \<and> prefix es script_calls" by blast
  have k: "os_stat (Path ''k8s'') placeholder_cwd = Inr (Dir 0x1ED)"
    by (simp add: placeholder_cwd_def Path_def os_stat_def owner_x_def)
  from phases_in_order [of placeholder_cwd] k
  have m1: "Path_mkdir ''k8s'' placeholder_cwd = Done (log_call (CallMkdir ''k8s'') placeholder_cwd)"
    by blast
  from phases_in_order [of placeholder_cwd] m1
  have m2: "is_dir (Path ''k8s'') (log_call (CallMkdir ''k8s'') placeholder_cwd)" by blast
  from done_part raised_part m1 m2 show ?thesis by blast
qed

text \<open>
  C7. In an empty working directory its owner may not write to, the run raises
  \<^verbatim>\<open>PermissionError\<close> (an \<^verbatim>\<open>OSError\<close>) in its first call, the \<^verbatim>\<open>mkdir\<close> of \<^verbatim>\<open>api\<close>: the file
  system is as it was, nothing was printed, and no file of the list exists.
\<close>

theorem read_only_aborts:
  assumes "fs w = [[] \<mapsto> Dir m]" "\<not> owner_w m"
  shows "\<exists>w'. create_project_structure w = Raised PermissionError w' \<and>
           fs w' = fs w \<and> stdout w' = stdout w \<and>
           calls w' = calls w @ [CallMkdir ''api''] \<and>
           (\<forall>f\<in>set files_to_create. fs w' (Path f) = None)"
proof -
  have "\<forall>f\<in>set files_to_create. fs w (Path f) = None"
    using assms(1) files_nonempty by simp
  with run_read_only [OF assms] show ?thesis by simp
qed

theorem read_only_aborts_witness:
  "\<exists>w'. create_project_structure (empty_cwd 0x16D) = Raised PermissionError w' \<and>
        fs w' = [[] \<mapsto> Dir 0x16D] \<and> stdout w' = [] \<and> calls w' = [CallMkdir ''api'']"
proof -
  have e: "fs (empty_cwd 0x16D) = [[] \<mapsto> Dir 0x16D]" by (simp add: empty_cwd_def)
  have ro: "\<not> owner_w (0x16D :: mode)" by (simp add: owner_w_def)
  from read_only_aborts [OF e ro] show ?thesis by (auto simp: empty_cwd_def)
qed

text \<open>
  C8. The run raises exactly when one of its calls raises after all calls before it
  have completed, with the error of that call and the world that call left: nothing
  runs after it and nothing is tried again. The process then exits with status 1, and
  with status 0 when no call raises.
\<close>

theorem errors_propagate:
  "(create_project_structure w = Raised e w' \<longleftrightarrow> first_failure w e w') \<and>
   (first_failure w e w' \<longrightarrow>
      main w = (1, w') \<and> exit_status (create_project_structure w) = 1) \<and>
   ((\<forall>e' v. \<not> first_failure w e' v) \<longrightarrow>
      fst (main w) = 0 \<and> exit_status (create_project_structure w) = 0)"
proof (intro conjI impI)
  show "create_project_structure w = Raised e w' \<longleftrightarrow> first_failure w e w'"
    by (rule run_Raised_iff)
next
  assume "first_failure w e w'"
  then have r: "create_project_structure w = Raised e w'" by (simp add: run_Raised_iff)
  then show "main w = (1, w')" by (simp add: main_def)
  from r show "exit_status (create_project_structure w) = 1" by (simp add: exit_status_def)
next
  assume none: "\<forall>e' v. \<not> first_failure w e' v"
  then obtain v where d: "create_project_structure w = Done v"
    by (cases "create_project_structure w") (auto simp: run_Raised_iff)
  then show "fst (main w) = 0" by (simp add: main_def)
  from d show "exit_status (create_project_structure w) = 0" by (simp add: exit_status_def)
qed

theorem errors_propagate_witness:
  "first_failure (empty_cwd 0x16D) PermissionError (log_call (CallMkdir ''api'') (empty_cwd 0x16D)) \<and>
   main (empty_cwd 0x16D) = (1, log_call (CallMkdir ''api'') (empty_cwd 0x16D)) \<and>
   fst (main (empty_cwd 0x1ED)) = 0"
proof -
  have e: "fs (empty_cwd 0x16D) = [[] \<mapsto> Dir 0x16D]" by (simp add: empty_cwd_def)
  have ro: "\<not> owner_w (0x16D :: mode)" by (simp add: owner_w_def)
  from run_read_only [OF e ro]
  have r: "create_project_structure (empty_cwd 0x16D) =
             Raised PermissionError (log_call (CallMkdir ''api'') (empty_cwd 0x16D))" .
  from errors_propagate [of "empty_cwd 0x16D" PermissionError "log_call (CallMkdir ''api'') (empty_cwd 0x16D)"] r
  have ff: "first_failure (empty_cwd 0x16D) PermissionError (log_call (CallMkdir ''api'') (empty_cwd 0x16D))"
    by blast
  with errors_propagate [of "empty_cwd 0x16D" PermissionError "log_call (CallMkdir ''api'') (empty_cwd 0x16D)"]
  have m: "main (empty_cwd 0x16D) = (1, log_call (CallMkdir ''api'') (empty_cwd 0x16D))"
    by blast
  from run_empty_cwd obtain v where d: "create_project_structure (empty_cwd 0x1ED) = Done v"
    by blast
  have "\<not> first_failure (empty_cwd 0x1ED) e' u" for e' u
    using errors_propagate [of "empty_cwd 0x1ED" e' u] d by simp
  with errors_propagate [of "empty_cwd 0x1ED"] have "fst (main (empty_cwd 0x1ED)) = 0"
    by blast
  with ff m show ?thesis by blast
qed

text \<open>
  C9, as the code has it. The text a completed run prints is one line
  \<^verbatim>\<open>Created: <path>\<close> per file of the list, then an empty line, then the line
  \<^verbatim>\<open>Created 13 files and 5 directories\<close>, then the usage hint: the summary is printed
  with a newline in front of it.
\<close>

theorem stdout_lines_with_blank:
  assumes "create_project_structure w = Done w'"
  shows "stdout w' = stdout w @ printed w w' \<and>
         lines_of (printed w w') =
           map created_line files_to_create @ [[], summary_line, usage_hint] \<and>
         summary_line = ''Created 13 files and 5 directories''"
  using run_stdout [OF assms] run_printed [OF assms]
  by (simp add: lines_of_script_output summary_line_text)

theorem stdout_lines_with_blank_witness:
  "\<exists>w'. create_project_structure (empty_cwd 0x1ED) = Done w' \<and>
        lines_of (stdout w') = map created_line files_to_create @ [[], summary_line, usage_hint]"
proof -
  from run_empty_cwd obtain w' where run: "create_project_structure (empty_cwd 0x1ED) = Done w'"
    by blast
  from stdout_lines_with_blank [OF run]
  have "stdout w' = stdout (empty_cwd 0x1ED) @ printed (empty_cwd 0x1ED) w'"
    and "lines_of (printed (empty_cwd 0x1ED) w') =
           map created_line files_to_create @ [[], summary_line, usage_hint]"
    by blast+
  then have "lines_of (stdout w') = map created_line files_to_create @ [[], summary_line, usage_hint]"
    by (simp add: empty_cwd_def)
  with run show ?thesis by blast
qed

text \<open>
  C9, as stated, fails: the run from an empty working directory of mode 0755 exits
  with status 0, and the lines it prints are not the lines \<^verbatim>\<open>Created: <path>\<close> followed by
  the summary line and the usage hint alone.
\<close>

theorem stdout_two_line_summary_counterexample:
  "exit_status (create_project_structure (empty_cwd 0x1ED)) = 0 \<and>
   lines_of (printed (empty_cwd 0x1ED) (world_of (create_project_structure (empty_cwd 0x1ED)))) \<noteq>
     map created_line files_to_create @ [summary_line, usage_hint]"
proof -
  from run_empty_cwd obtain w' where run: "create_project_structure (empty_cwd 0x1ED) = Done w'"
    by blast
  have "lines_of (printed (empty_cwd 0x1ED) w') =
          map created_line files_to_create @ [[], summary_line, usage_hint]"
    by (simp add: run_printed [OF run] lines_of_script_output)
  with run show ?thesis by (simp add: exit_status_def)
qed

text \<open>
  C10. Whatever the world before it, a completed run prints exactly the thirteen lines
  \<^verbatim>\<open>Created: <path>\<close>, one per file of the list and in its order, and the summary line with
  the lengths of the two lists, 13 and 5.
\<close>

theorem created_lines_static:
  assumes "create_project_structure w = Done w'"
  shows "filter (\<lambda>l. take 9 l = ''Created: '') (lines_of (printed w w')) =
           map created_line files_to_create \<and>
         length (filter (\<lambda>l. take 9 l = ''Created: '') (lines_of (printed w w'))) = 13 \<and>
         ''Created 13 files and 5 directories'' \<in> set (lines_of (printed w w')) \<and>
         length files_to_create = 13 \<and> length directories = 5"
proof -
  have l: "lines_of (printed w w') = map created_line files_to_create @ [[], summary_line, usage_hint]"
    by (simp add: run_printed [OF assms] lines_of_script_output)
  have n: "length files_to_create = 13" "length directories = 5"
    by (simp_all add: files_to_create_def directories_def)
  have "filter (\<lambda>l. take 9 l = ''Created: '') (lines_of (printed w w')) =
           map created_line files_to_create"
    unfolding l by (rule created_lines_filter)
  moreover have "''Created 13 files and 5 directories'' \<in> set (lines_of (printed w w'))"
    unfolding l by (simp add: summary_line_text)
  ultimately show ?thesis using n by simp
qed

theorem created_lines_static_witness:
  "\<exists>w'. create_project_structure placeholder_cwd = Done w' \<and>
        filter (\<lambda>l. take 9 l = ''Created: '') (lines_of (stdout w')) =
          map created_line files_to_create \<and>
        ''Created 13 files and 5 directories'' \<in> set (lines_of (stdout w'))"
proof -
  from run_placeholder obtain w' where run: "create_project_structure placeholder_cwd = Done w'"
    by blast
  have "printed placeholder_cwd w' = stdout w'"
    by (simp add: printed_def placeholder_cwd_def)
  with created_lines_static [OF run] run show ?thesis by auto
qed

end
